theory Spec2Isabelle
  imports Complex_Main "HOL-Library.Multiset"
begin

section \<open>Data model of the multi-handle slider\<close>

text \<open>
  The numeric props that the caller supplies (handle values, step sizes, bounds) are finite
  numbers and are modelled as reals. Array indices are integers, as \<open>indexOf\<close> and the lock
  search return \<open>-1\<close>. The numbers that the component computes or receives from a handle are
  JavaScript numbers (section below).
\<close>

datatype HandleInteractionKind = LOCK | PUSH | NONE

text \<open>
  \<open>IHandleProps\<close> (handleProps.ts): the fields the slider logic reads. \<open>interactionKind\<close> is
  optional in the source (\<open>None\<close> is \<open>undefined\<close>); \<open>onChange\<close> and \<open>onRelease\<close> record whether
  the handle supplies the callback.
\<close>

record IHandleProps =
  "value" :: real
  interactionKind :: "HandleInteractionKind option"
  onChange :: bool
  onRelease :: bool

text \<open>
  A child of the slider as \<open>React.Children\<close> presents it: a falsy child (null, undefined,
  false), a \<open>MultiSlider.Handle\<close> element with its props, or any other truthy node.
\<close>

datatype child = Falsy | HandleElement IHandleProps | OtherNode

text \<open>The \<open>labelRenderer\<close> prop: a boolean or a callback.\<close>

datatype LabelRenderer = Renderer_boolean bool | Renderer_callback

text \<open>
  \<open>IMultiSliderProps\<close> with the defaults of \<open>defaultProps\<close> applied, so the numeric props are
  defined. \<open>children = None\<close> is an absent \<open>children\<close> prop, \<open>labelRenderer = None\<close> an absent
  \<open>labelRenderer\<close> prop. \<open>props_onChange\<close> and \<open>props_onRelease\<close> record whether the slider's
  own callbacks are supplied.
\<close>

record IMultiSliderProps =
  children :: "child list option"
  disabled :: bool
  labelRenderer :: "LabelRenderer option"
  labelStepSize :: real
  max_prop :: real
  min_prop :: real
  stepSize :: real
  vertical :: bool
  props_onChange :: bool
  props_onRelease :: bool

section \<open>JavaScript numbers\<close>

text \<open>
  A number of the source: a finite number, one of the two infinities, or NaN. Finite
  arithmetic is exact (no rounding, no signed zero), but a finite result whose magnitude
  exceeds \<open>Number.MAX_VALUE\<close> overflows to an infinity, and the operations follow IEEE 754
  on the infinities and on NaN.
\<close>

datatype number = Minus_Infinity | Num real | Infinity | NaN

text \<open>
  The order of the numbers, with NaN put last by convention so that the order is linear. It
  is the order of the source on numbers other than NaN; the comparisons of the source, which
  are all false on NaN, are \<open>js_lt\<close>, \<open>js_le\<close> and \<open>js_strict_eq\<close> below.
\<close>

instantiation number :: linorder
begin

fun less_eq_number :: "number \<Rightarrow> number \<Rightarrow> bool" where
  "less_eq_number Minus_Infinity b = True"
| "less_eq_number (Num x) Minus_Infinity = False"
| "less_eq_number (Num x) (Num y) = (x \<le> y)"
| "less_eq_number (Num x) Infinity = True"
| "less_eq_number (Num x) NaN = True"
| "less_eq_number Infinity Minus_Infinity = False"
| "less_eq_number Infinity (Num y) = False"
| "less_eq_number Infinity Infinity = True"
| "less_eq_number Infinity NaN = True"
| "less_eq_number NaN NaN = True"
| "less_eq_number NaN b = False"

definition less_number :: "number \<Rightarrow> number \<Rightarrow> bool" where
  "less_number a b = (a \<le> b \<and> \<not> b \<le> a)"

instance
proof
  fix a b c :: number
  show "(a < b) = (a \<le> b \<and> \<not> b \<le> a)" by (simp add: less_number_def)
  show "a \<le> a" by (cases a) simp_all
  show "a \<le> b \<Longrightarrow> b \<le> c \<Longrightarrow> a \<le> c"
    by (cases a; cases b; cases c) simp_all
  show "a \<le> b \<Longrightarrow> b \<le> a \<Longrightarrow> a = b"
    by (cases a; cases b) simp_all
  show "a \<le> b \<or> b \<le> a"
    by (cases a; cases b) auto
qed

end



text \<open>\<open>===\<close> on what an array holds (\<open>None\<close> is \<open>undefined\<close>): NaN is not equal to itself.\<close>

definition js_strict_eq :: "number option \<Rightarrow> number option \<Rightarrow> bool" where
  "js_strict_eq a b = (a = b \<and> a \<noteq> Some NaN)"

definition MAX_VALUE :: real where
  "MAX_VALUE = (2 - 1 / 2 ^ 52) * 2 ^ 1023"

definition overflow :: "real \<Rightarrow> number" where
  "overflow x =
     (if MAX_VALUE < x then Infinity else if x < - MAX_VALUE then Minus_Infinity else Num x)"











section \<open>State, elements, errors and calls\<close>



datatype error =
    TypeError
  | OBJECTS_NOT_VALID_AS_REACT_CHILD
  | SLIDER_ZERO_STEP
  | SLIDER_ZERO_LABEL_STEP
  | MULTISLIDER_INVALID_CHILD
  | WINDOW_OVERRIDE_CONTEXT_CLASS_NAME_STRING
  | WINDOW_OVERRIDE_CONTEXT_UNEXPECTED_TYPE

text \<open>The calls a handler makes on the callbacks of the slider and of its handles, in order.\<close>

datatype call =
    Props_onChange "number option list"
  | Props_onRelease "number option list"
  | Handle_onChange int "number option"
  | Handle_onRelease int "number option"

section \<open>JavaScript arrays\<close>

text \<open>
  An array of the source is a list of optional elements: \<open>None\<close> is a hole or \<open>undefined\<close>.
  Reading outside the array gives \<open>undefined\<close>; writing at or past the end extends the array,
  leaving holes; writing at a negative index sets a property and leaves the elements alone.
\<close>

definition js_index :: "'a list \<Rightarrow> int \<Rightarrow> 'a option" where
  "js_index arr i = (if 0 \<le> i \<and> nat i < length arr then Some (arr ! nat i) else None)"

definition js_read :: "'a option list \<Rightarrow> int \<Rightarrow> 'a option" where
  "js_read arr i = (case js_index arr i of None \<Rightarrow> None | Some x \<Rightarrow> x)"

definition js_assign :: "'a option list \<Rightarrow> int \<Rightarrow> 'a option \<Rightarrow> 'a option list" where
  "js_assign arr i v =
     (if i < 0 then arr
      else if nat i < length arr then arr[nat i := v]
      else arr @ replicate (nat i - length arr) None @ [v])"

text \<open>
  \<open>arr.sort((left, right) => left - right)\<close>: the defined numbers in nondecreasing order,
  then the undefined entries and holes. When the array holds NaN the comparator is not
  consistent (it answers NaN, which counts as equal, for every pair with NaN) and the
  order is left to the engine: \<open>engine\<close> is what the engine makes of such an array.
\<close>

definition js_sort_numbers ::
  "(number option list \<Rightarrow> number option list) \<Rightarrow> number option list \<Rightarrow> number option list" where
  "js_sort_numbers engine arr =
     (if Some NaN \<in> set arr then engine arr
      else map Some (sort (List.map_filter id arr))
           @ replicate (length (filter (\<lambda>x. x = None) arr)) None)"

text \<open>\<open>arr.indexOf(v)\<close>: the first index whose entry is \<open>===\<close> to \<open>v\<close>, or \<open>-1\<close>.\<close>

fun indexOf_from :: "number option list \<Rightarrow> number \<Rightarrow> int \<Rightarrow> int" where
  "indexOf_from [] v k = - 1"
| "indexOf_from (x # xs) v k =
     (if js_strict_eq x (Some v) then k else indexOf_from xs v (k + 1))"

definition indexOf :: "number option list \<Rightarrow> number \<Rightarrow> int" where
  "indexOf arr v = indexOf_from arr v 0"

section \<open>Helpers of the repository defined outside the slider and the validator\<close>

text \<open>
  Modelled from the spec: \<open>Utils.isElementOfType(child, MultiSlider.Handle)\<close> of common/utils,
  which is missing; it tells whether a child is a handle element.
\<close>

definition isElementOfType :: "child \<Rightarrow> bool" where
  "isElementOfType c = (case c of HandleElement _ \<Rightarrow> True | _ \<Rightarrow> False)"

text \<open>
  Modelled from the spec: \<open>fillValues\<close> of sliderUtils, which is missing; the fill-forward
  that sets every entry between the two indices, both included, to the fill value.
\<close>

definition fillValues :: "'a option list \<Rightarrow> int \<Rightarrow> int \<Rightarrow> 'a option \<Rightarrow> 'a option list" where
  "fillValues values startIndex endIndex fillValue =
     fold (\<lambda>index arr. js_assign arr index fillValue)
          [min startIndex endIndex..max startIndex endIndex] values"

text \<open>
  Modelled from the spec: \<open>argMin\<close> of sliderUtils, which is missing; the selection of an
  element whose key is least, \<open>undefined\<close> for an empty array.
\<close>

definition argMin :: "'a list \<Rightarrow> ('a \<Rightarrow> real) \<Rightarrow> 'a option" where
  "argMin values argFn =
     (case values of
        [] \<Rightarrow> None
      | x # xs \<Rightarrow> Some (fold (\<lambda>v best. if argFn v < argFn best then v else best) xs x))"


text \<open>
  Modelled from the spec: \<open>Utils.arraysEqual\<close> of common/utils, which is missing; whether two
  arrays have the same length and the same entries, compared by \<open>===\<close>.
\<close>

definition arraysEqual :: "number option list \<Rightarrow> number option list \<Rightarrow> bool" where
  "arraysEqual arrA arrB = list_all2 js_strict_eq arrA arrB"

text \<open>
  Modelled from the spec: \<open>Utils.safeInvoke\<close> of common/utils, which is missing; the callback
  is called when it is supplied, and nothing happens otherwise.
\<close>

definition safeInvoke :: "bool \<Rightarrow> call \<Rightarrow> call list" where
  "safeInvoke supplied c = (if supplied then [c] else [])"

section \<open>Sorted handle props\<close>

text \<open>\<open>React.Children.map\<close>: absent children give no array.\<close>

definition React_Children_map :: "(child \<Rightarrow> 'b) \<Rightarrow> child list option \<Rightarrow> 'b list option" where
  "React_Children_map f cs = (case cs of None \<Rightarrow> None | Some l \<Rightarrow> Some (map f l))"

text \<open>
  \<open>getSortedHandleProps\<close>. A child that is not a handle, or that the predicate rejects,
  becomes null and is filtered out; the sort is the stable sort by \<open>value\<close>.
\<close>

definition getSortedHandleProps ::
  "IMultiSliderProps \<Rightarrow> (IHandleProps \<Rightarrow> bool) \<Rightarrow> IHandleProps list" where
  "getSortedHandleProps props predicate =
     (let maybeHandles =
            React_Children_map
              (\<lambda>c. case c of
                      HandleElement childProps \<Rightarrow>
                        if isElementOfType c \<and> predicate childProps then Some childProps else None
                    | _ \<Rightarrow> None)
              (children props);
          handles = (case maybeHandles of Some l \<Rightarrow> l | None \<Rightarrow> []);
          handles = List.map_filter id handles
      in sort_key IHandleProps.value handles)"

definition getSortedInteractiveHandleProps :: "IMultiSliderProps \<Rightarrow> IHandleProps list" where
  "getSortedInteractiveHandleProps props =
     getSortedHandleProps props (\<lambda>childProps. interactionKind childProps \<noteq> Some NONE)"

section \<open>Prop validation\<close>

text \<open>
  The children as the caller writes them, before \<open>React.Children\<close> presents them, with
  nested arrays flattened as the traversal does: null, undefined, a boolean, a string, a
  number, a \<open>MultiSlider.Handle\<close> element, another element (a fragment is one), or an object
  that is neither an element nor a collection of children. The \<open>children\<close> field of the props
  record holds the children as they are presented.
\<close>

datatype ReactNode =
    Node_null
  | Node_undefined
  | Node_boolean bool
  | Node_string string
  | Node_number number
  | Node_handle IHandleProps
  | Node_element
  | Node_object

text \<open>
  What \<open>React.Children.forEach\<close> hands to its callback for a written child: null for null,
  undefined and the booleans, the child itself otherwise. An empty string, zero and NaN are
  falsy.
\<close>

fun presented :: "ReactNode \<Rightarrow> child" where
  "presented Node_null = Falsy"
| "presented Node_undefined = Falsy"
| "presented (Node_boolean b) = Falsy"
| "presented (Node_string s) = (if s = [] then Falsy else OtherNode)"
| "presented (Node_number x) = (if x = Num 0 \<or> x = NaN then Falsy else OtherNode)"
| "presented (Node_handle p) = HandleElement p"
| "presented Node_element = OtherNode"
| "presented Node_object = OtherNode"

text \<open>
  \<open>React.Children.forEach\<close>: the children handed to the callback, in order; the traversal
  itself throws on an object that is not a valid child. Absent children are not traversed.
\<close>

definition React_Children_forEach :: "ReactNode list option \<Rightarrow> error + child list" where
  "React_Children_forEach nodes =
     (case nodes of
        None \<Rightarrow> Inr []
      | Some l \<Rightarrow>
          if Node_object \<in> set l then Inl OBJECTS_NOT_VALID_AS_REACT_CHILD
          else Inr (map presented l))"

text \<open>
  \<open>validateProps\<close>, given the props and their children as written. The callback only sets
  \<open>anyInvalidChildren\<close>, so an exception of the traversal is all that is left of a
  traversal that throws.
\<close>

definition validateProps :: "IMultiSliderProps \<Rightarrow> ReactNode list option \<Rightarrow> error + unit" where
  "validateProps props written_children =
     (if stepSize props \<le> 0 then Inl SLIDER_ZERO_STEP
      else if labelStepSize props \<le> 0 then Inl SLIDER_ZERO_LABEL_STEP
      else
        case React_Children_forEach written_children of
          Inl e \<Rightarrow> Inl e
        | Inr cs \<Rightarrow>
            let anyInvalidChildren =
                  fold (\<lambda>c anyInvalid.
                          if c \<noteq> Falsy \<and> \<not> isElementOfType c then True else anyInvalid)
                       cs False
            in if anyInvalidChildren then Inl MULTISLIDER_INVALID_CHILD else Inr ())"

section \<open>Handle-value reconciliation\<close>

text \<open>
  The loop of \<open>findFirstLockedHandleIndex\<close>: it runs while \<open>index !== endIndex + inc\<close>.
  Reading \<open>interactionKind\<close> of an entry outside \<open>handleProps\<close> throws a \<open>TypeError\<close>.
\<close>

partial_function (option) findFirstLocked_loop ::
  "IHandleProps list \<Rightarrow> int \<Rightarrow> int \<Rightarrow> int \<Rightarrow> (error + int) option" where
  "findFirstLocked_loop handleProps inc endIndex index =
     (if index \<noteq> endIndex + inc then
        (case js_index handleProps index of
           None \<Rightarrow> Some (Inl TypeError)
         | Some handle \<Rightarrow>
             if interactionKind handle \<noteq> Some PUSH then Some (Inr index)
             else findFirstLocked_loop handleProps inc endIndex (index + inc))
      else Some (Inr (- 1)))"

declare findFirstLocked_loop.simps [code]

definition findFirstLockedHandleIndex ::
  "IMultiSliderProps \<Rightarrow> int \<Rightarrow> int \<Rightarrow> (error + int) option" where
  "findFirstLockedHandleIndex props startIndex endIndex =
     (let inc = (if startIndex < endIndex then 1 else - 1);
          handleProps = getSortedInteractiveHandleProps props
      in findFirstLocked_loop handleProps inc endIndex (startIndex + inc))"

text \<open>
  \<open>getNewHandleValues\<close>. The new value comes from a handle and is any number, NaN included;
  \<open>engine\<close> is the order the engine's sort leaves an array that holds NaN in.
\<close>

definition getNewHandleValues ::
  "(number option list \<Rightarrow> number option list) \<Rightarrow> IMultiSliderProps \<Rightarrow> number \<Rightarrow> int
   \<Rightarrow> (error + number option list) option" where
  "getNewHandleValues engine props newValue oldIndex =
     (let handleProps = getSortedInteractiveHandleProps props;
          oldValues = map (\<lambda>handle. Some (Num (IHandleProps.value handle))) handleProps;
          newValues = js_sort_numbers engine (js_assign oldValues oldIndex (Some newValue));
          newIndex = indexOf newValues newValue
      in case findFirstLockedHandleIndex props oldIndex newIndex of
           None \<Rightarrow> None
         | Some (Inl e) \<Rightarrow> Some (Inl e)
         | Some (Inr lockIndex) \<Rightarrow>
             if lockIndex = - 1 then
               Some (Inr (fillValues newValues oldIndex newIndex (Some newValue)))
             else
               let lockValue = js_read oldValues lockIndex
               in Some (Inr (fillValues oldValues oldIndex lockIndex lockValue)))"

section \<open>Change and release handlers\<close>

definition handleChange :: "IMultiSliderProps \<Rightarrow> number option list \<Rightarrow> call list" where
  "handleChange props newValues =
     (let handleProps = getSortedInteractiveHandleProps props;
          oldValues = map (\<lambda>handle. Some (Num (IHandleProps.value handle))) handleProps
      in if \<not> arraysEqual newValues oldValues then
           safeInvoke (props_onChange props) (Props_onChange newValues) @
           concat (map (\<lambda>(index, handle).
                          if \<not> js_strict_eq (js_read oldValues (int index))
                                            (js_read newValues (int index))
                          then safeInvoke (onChange handle)
                                 (Handle_onChange (int index) (js_read newValues (int index)))
                          else [])
                       (enumerate 0 handleProps))
         else [])"

definition handleRelease :: "IMultiSliderProps \<Rightarrow> number option list \<Rightarrow> call list" where
  "handleRelease props newValues =
     (let handleProps = getSortedInteractiveHandleProps props
      in safeInvoke (props_onRelease props) (Props_onRelease newValues) @
         concat (map (\<lambda>(index, handle).
                        safeInvoke (onRelease handle)
                          (Handle_onRelease (int index) (js_read newValues (int index))))
                     (enumerate 0 handleProps)))"

text \<open>
  \<open>getHandlerForIndex\<close>: the handler of the handle at \<open>index\<close> passes the reconciled values
  to the callback; an exception of the reconciliation propagates.
\<close>

definition getHandlerForIndex ::
  "(number option list \<Rightarrow> number option list) \<Rightarrow> IMultiSliderProps \<Rightarrow> int
   \<Rightarrow> (number option list \<Rightarrow> call list) \<Rightarrow> number \<Rightarrow> (error + call list) option" where
  "getHandlerForIndex engine props index callback newValue =
     (case getNewHandleValues engine props newValue index of
        None \<Rightarrow> None
      | Some (Inl e) \<Rightarrow> Some (Inl e)
      | Some (Inr values) \<Rightarrow> Some (Inr (callback values)))"

section \<open>Nearest handle\<close>

text \<open>
  \<open>nearestHandleForValue\<close>. The \<open>Handle\<close> component is not in the sources at hand: its
  \<open>clientToValue\<close> method and its \<open>props.value\<close> are parameters.
\<close>

definition nearestHandleForValue ::
  "('h \<Rightarrow> real \<Rightarrow> real) \<Rightarrow> ('h \<Rightarrow> real) \<Rightarrow> 'h list \<Rightarrow> ('h \<Rightarrow> real) \<Rightarrow> 'h option" where
  "nearestHandleForValue clientToValue props_value handles getOffset =
     argMin handles
       (\<lambda>handle. let offset = getOffset handle;
                     offsetValue = clientToValue handle offset;
                     handleValue = props_value handle
                 in \<bar>offsetValue - handleValue\<bar>)"

text \<open>
  \<open>canHandleTrackEvent\<close>: the slider is enabled and the event does not come from inside a
  handle (\<open>insideHandle\<close> is the outcome of \<open>target.closest\<close>).
\<close>

definition canHandleTrackEvent :: "IMultiSliderProps \<Rightarrow> bool \<Rightarrow> bool" where
  "canHandleTrackEvent props insideHandle = (\<not> disabled props \<and> \<not> insideHandle)"

text \<open>
  \<open>maybeHandleTrackClick\<close> and \<open>maybeHandleTrackTouch\<close> differ in the offset they read and in
  the movement they begin; the result is the handle whose movement begins, if any.
\<close>

definition maybeHandleTrackClick ::
  "IMultiSliderProps \<Rightarrow> bool \<Rightarrow> ('h \<Rightarrow> real \<Rightarrow> real) \<Rightarrow> ('h \<Rightarrow> real) \<Rightarrow> 'h list \<Rightarrow> ('h \<Rightarrow> real) \<Rightarrow> 'h option" where
  "maybeHandleTrackClick props insideHandle clientToValue props_value handleElements mouseEventClientOffset =
     (if canHandleTrackEvent props insideHandle then
        (case nearestHandleForValue clientToValue props_value handleElements mouseEventClientOffset of
           Some foundHandle \<Rightarrow> Some foundHandle
         | None \<Rightarrow> None)
      else None)"

definition maybeHandleTrackTouch ::
  "IMultiSliderProps \<Rightarrow> bool \<Rightarrow> ('h \<Rightarrow> real \<Rightarrow> real) \<Rightarrow> ('h \<Rightarrow> real) \<Rightarrow> 'h list \<Rightarrow> ('h \<Rightarrow> real) \<Rightarrow> 'h option" where
  "maybeHandleTrackTouch props insideHandle clientToValue props_value handleElements touchEventClientOffset =
     (if canHandleTrackEvent props insideHandle then
        (case nearestHandleForValue clientToValue props_value handleElements touchEventClientOffset of
           Some foundHandle \<Rightarrow> Some foundHandle
         | None \<Rightarrow> None)
      else None)"

section \<open>Tick size and offset ratio\<close>



section \<open>Axis labels\<close>




section \<open>The windowOverride context validator\<close>

text \<open>
  A value of the context that may be null or undefined; a \<open>Window\<close> is reduced to the four
  members the validator looks at, each present or absent (null or undefined).
\<close>

datatype 'a nullable = Null | Undefined | Value 'a

record Window =
  document :: "unit nullable"
  location :: "unit nullable"
  alert :: "unit nullable"
  setInterval :: "unit nullable"

definition is_nullish :: "'a nullable \<Rightarrow> bool" where
  "is_nullish x = (case x of Value _ \<Rightarrow> False | _ \<Rightarrow> True)"

text \<open>The validator returns an \<open>Error\<close> (\<open>Some\<close>) or \<open>undefined\<close> (\<open>None\<close>).\<close>

definition windowOverrideContextTypes :: "Window nullable \<Rightarrow> error option" where
  "windowOverrideContextTypes v =
     (case v of
        Value w \<Rightarrow>
          if is_nullish (document w) \<or> is_nullish (location w) \<or> is_nullish (alert w)
             \<or> is_nullish (setInterval w)
          then Some WINDOW_OVERRIDE_CONTEXT_UNEXPECTED_TYPE else None
      | _ \<Rightarrow> None)"

definition WINDOW_OVERRIDE_REACT_CONTEXT_TYPES :: "Window nullable \<Rightarrow> error option" where
  "WINDOW_OVERRIDE_REACT_CONTEXT_TYPES variable =
     (case variable of
        Value w \<Rightarrow>
          if is_nullish (document w) \<or> is_nullish (location w) \<or> is_nullish (alert w)
             \<or> is_nullish (setInterval w)
          then Some WINDOW_OVERRIDE_CONTEXT_CLASS_NAME_STRING else None
      | _ \<Rightarrow> None)"

section \<open>Notions used to state the properties\<close>

text \<open>The props of the handle elements among the children, in the order of the children.\<close>

definition handle_children :: "IMultiSliderProps \<Rightarrow> IHandleProps list" where
  "handle_children props =
     concat (map (\<lambda>c. case c of HandleElement p \<Rightarrow> [p] | _ \<Rightarrow> [])
                 (case children props of None \<Rightarrow> [] | Some l \<Rightarrow> l))"

text \<open>A handle is locked when its interaction kind is not \<open>PUSH\<close>.\<close>

definition is_locked :: "IHandleProps list \<Rightarrow> int \<Rightarrow> bool" where
  "is_locked handleProps k = (interactionKind (handleProps ! nat k) \<noteq> Some PUSH)"

text \<open>
  The indices the lock search visits, in order: from the neighbour of \<open>startIndex\<close> on the
  side of \<open>endIndex\<close> up to \<open>endIndex\<close> itself; none when the two indices are equal.
\<close>

definition scan_order :: "int \<Rightarrow> int \<Rightarrow> int list" where
  "scan_order startIndex endIndex =
     (if startIndex < endIndex then [startIndex + 1..endIndex]
      else rev [endIndex..startIndex - 1])"

definition first_locked :: "IHandleProps list \<Rightarrow> int \<Rightarrow> int \<Rightarrow> int" where
  "first_locked handleProps startIndex endIndex =
     (case find (is_locked handleProps) (scan_order startIndex endIndex) of
        None \<Rightarrow> - 1 | Some k \<Rightarrow> k)"

text \<open>
  The lock search along a list of indices: the first index that is locked, \<open>-1\<close> when there
  is none, and a \<open>TypeError\<close> as soon as an index outside the handles is met before.
\<close>

fun lock_search :: "IHandleProps list \<Rightarrow> int list \<Rightarrow> error + int" where
  "lock_search handleProps [] = Inr (- 1)"
| "lock_search handleProps (k # ks) =
     (case js_index handleProps k of
        None \<Rightarrow> Inl TypeError
      | Some handle \<Rightarrow>
          if interactionKind handle \<noteq> Some PUSH then Inr k else lock_search handleProps ks)"

text \<open>A list with every entry between two indices, both included, replaced by \<open>v\<close>.\<close>

definition filled :: "'a list \<Rightarrow> int \<Rightarrow> int \<Rightarrow> 'a \<Rightarrow> 'a list" where
  "filled xs a b v =
     map (\<lambda>k. if min a b \<le> int k \<and> int k \<le> max a b then v else xs ! k) [0..<length xs]"

text \<open>The first position of \<open>v\<close> in a list (the length of the list when \<open>v\<close> is absent).\<close>

definition first_index :: "'a list \<Rightarrow> 'a \<Rightarrow> int" where
  "first_index xs v = int (length (takeWhile (\<lambda>x. x \<noteq> v) xs))"

text \<open>
  The reconciliation on plain lists of numbers: the values of the sorted interactive handles
  after the handle at \<open>oldIndex\<close> is dragged to \<open>newValue\<close>.
\<close>

definition reconciled :: "IHandleProps list \<Rightarrow> number \<Rightarrow> int \<Rightarrow> number list" where
  "reconciled handleProps newValue oldIndex =
     (let oldValues = map (\<lambda>handle. Num (IHandleProps.value handle)) handleProps;
          sortedValues = sort (oldValues[nat oldIndex := newValue]);
          newIndex = first_index sortedValues newValue
      in case find (is_locked handleProps) (scan_order oldIndex newIndex) of
           None \<Rightarrow> filled sortedValues oldIndex newIndex newValue
         | Some lockIndex \<Rightarrow> filled oldValues oldIndex lockIndex (oldValues ! nat lockIndex))"

text \<open>
  The reconciliation when the new value is NaN: the new position is \<open>-1\<close>, so the search runs
  from below \<open>oldIndex\<close> down to the first handle and then reads before the first handle,
  unless it meets a locked handle.
\<close>

definition reconciled_NaN :: "IHandleProps list \<Rightarrow> int \<Rightarrow> error + number list" where
  "reconciled_NaN handleProps oldIndex =
     (let oldValues = map (\<lambda>handle. Num (IHandleProps.value handle)) handleProps
      in case find (is_locked handleProps) (rev [0..oldIndex - 1]) of
           None \<Rightarrow> Inl TypeError
         | Some lockIndex \<Rightarrow>
             Inr (filled oldValues oldIndex lockIndex (oldValues ! nat lockIndex)))"

subsection \<open>Two descriptions of the search, read word for word\<close>

text \<open>
  The lock search as described: a scan that starts at \<open>startIndex + 1\<close> and moves towards
  \<open>endIndex\<close>, which it includes.
\<close>

definition claimed_findFirstLockedHandleIndex :: "IHandleProps list \<Rightarrow> int \<Rightarrow> int \<Rightarrow> int" where
  "claimed_findFirstLockedHandleIndex handleProps startIndex endIndex =
     (case find (is_locked handleProps)
             (if startIndex + 1 \<le> endIndex then [startIndex + 1..endIndex]
              else rev [endIndex..startIndex + 1]) of
        None \<Rightarrow> - 1 | Some k \<Rightarrow> k)"



subsection \<open>Concrete sliders\<close>

definition example_handle :: "real \<Rightarrow> HandleInteractionKind option \<Rightarrow> child" where
  "example_handle v k =
     HandleElement \<lparr>value = v, interactionKind = k, onChange = True, onRelease = True\<rparr>"

text \<open>A slider with the default props of \<open>defaultSliderProps\<close> and the given children.\<close>

definition example_slider :: "child list \<Rightarrow> IMultiSliderProps" where
  "example_slider cs =
     \<lparr>children = Some cs, disabled = False, labelRenderer = None, labelStepSize = 1,
      max_prop = 10, min_prop = 0, stepSize = 1, vertical = False, props_onChange = True,
      props_onRelease = True\<rparr>"

text \<open>A pushing handle next to a locked one.\<close>

definition locked_neighbour_slider :: IMultiSliderProps where
  "locked_neighbour_slider =
     example_slider [example_handle 1 (Some PUSH), example_handle 5 (Some LOCK)]"

text \<open>Two handles at the same value, the second one locked.\<close>

definition tied_slider :: IMultiSliderProps where
  "tied_slider = example_slider [example_handle 5 (Some PUSH), example_handle 5 (Some LOCK)]"

text \<open>Three handles; the outer ones are locked, the middle one pushes.\<close>

definition three_slider :: IMultiSliderProps where
  "three_slider =
     example_slider [example_handle 1 (Some LOCK), example_handle 5 (Some PUSH),
                     example_handle 9 (Some LOCK)]"

text \<open>An engine that leaves an array that holds NaN as it is.\<close>

definition example_engine :: "number option list \<Rightarrow> number option list" where
  "example_engine arr = arr"

text \<open>A disabled slider, for a click on the track of the handles 1, 5 and 9.\<close>

definition disabled_slider :: IMultiSliderProps where
  "disabled_slider = (example_slider [])\<lparr>disabled := True\<rparr>"

text \<open>A handle element among the children as written.\<close>

definition handle_node :: ReactNode where
  "handle_node =
     Node_handle \<lparr>value = 1, interactionKind = Some LOCK, onChange = True, onRelease = True\<rparr>"

text \<open>Handles of a track, reduced to their value; a click whose position has the value 6.\<close>

definition example_clientToValue :: "real \<Rightarrow> real \<Rightarrow> real" where
  "example_clientToValue handle offset = offset"

definition example_props_value :: "real \<Rightarrow> real" where
  "example_props_value handle = handle"

definition example_offset :: "real \<Rightarrow> real" where
  "example_offset handle = 6"




definition complete_window :: Window where
  "complete_window =
     \<lparr>document = Value (), location = Value (), alert = Value (), setInterval = Value ()\<rparr>"

section \<open>Auxiliary facts\<close>

lemma map_filter_handles:
  "List.map_filter id (map (\<lambda>c. case c of HandleElement p \<Rightarrow> if isElementOfType c \<and> P p then Some p else None | _ \<Rightarrow> None) l)
     = filter P (concat (map (\<lambda>c. case c of HandleElement p \<Rightarrow> [p] | _ \<Rightarrow> []) l))"
  by (induction l) (auto simp: List.map_filter_simps isElementOfType_def split: child.splits)

lemma getSortedHandleProps_eq:
  "getSortedHandleProps props P = sort_key IHandleProps.value (filter P (handle_children props))"
  by (cases "children props")
     (simp_all add: getSortedHandleProps_def handle_children_def React_Children_map_def
        map_filter_handles List.map_filter_simps)

lemma fold_anyInvalid:
  "fold (\<lambda>c anyInvalid. if c \<noteq> Falsy \<and> \<not> isElementOfType c then True else anyInvalid) l b
     = (b \<or> (\<exists>c \<in> set l. c \<noteq> Falsy \<and> \<not> isElementOfType c))"
  by (induction l arbitrary: b) auto

lemma js_assign_in_range:
  "0 \<le> i \<Longrightarrow> nat i < length xs \<Longrightarrow> js_assign (map Some xs) i (Some v) = map Some (xs[nat i := v])"
  by (simp add: js_assign_def map_update)

lemma map_filter_id_Some: "List.map_filter id (map Some xs) = xs"
  by (induction xs) simp_all

lemma js_sort_numbers_defined:
  assumes "NaN \<notin> set xs"
  shows "js_sort_numbers engine (map Some xs) = map Some (sort xs)"
proof -
  have "filter (\<lambda>x. x = None) (map Some xs) = []"
    by (induction xs) simp_all
  moreover have "Some NaN \<notin> set (map Some xs)"
    using assms by auto
  ultimately show ?thesis by (simp add: js_sort_numbers_def map_filter_id_Some)
qed

lemma js_sort_assign_past:
  assumes "int (length xs) \<le> i" and "NaN \<notin> set xs" and "v \<noteq> NaN"
  shows "js_sort_numbers engine (js_assign (map Some xs) i (Some v))
           = map Some (sort (xs @ [v])) @ replicate (nat i - length xs) None"
proof -
  have "\<not> i < 0" "\<not> nat i < length (map Some xs)" using assms(1) by simp_all
  then have asg: "js_assign (map Some xs) i (Some v)
               = map Some xs @ replicate (nat i - length xs) None @ [Some v]"
    unfolding js_assign_def by simp
  have mf: "List.map_filter id (map Some xs @ replicate (nat i - length xs) None @ [Some v]) = xs @ [v]"
    by (simp add: List.map_filter_def)
  have fl: "filter (\<lambda>x. x = None) (map Some xs @ replicate (nat i - length xs) None @ [Some v])
              = replicate (nat i - length xs) None"
    by (simp add: filter_empty_conv)
  have nn: "Some NaN \<notin> set (map Some xs @ replicate (nat i - length xs) None @ [Some v])"
    using assms(2,3) by auto
  show ?thesis
    unfolding asg js_sort_numbers_def mf fl using nn by simp
qed

lemma indexOf_from_append:
  assumes "v \<noteq> NaN"
  shows "indexOf_from (map Some s @ ys) v k =
     (if v \<in> set s then k + int (length (takeWhile (\<lambda>x. x \<noteq> v) s))
      else indexOf_from ys v (k + int (length s)))"
  using assms by (induction s arbitrary: k) (auto simp: algebra_simps js_strict_eq_def)

lemma indexOf_from_None: "indexOf_from (replicate m None) v k = - 1"
  by (induction m arbitrary: k) (simp_all add: js_strict_eq_def)

lemma indexOf_padded:
  "v \<noteq> NaN \<Longrightarrow>
   indexOf (map Some s @ replicate m None) v = (if v \<in> set s then first_index s v else - 1)"
  by (simp add: indexOf_def indexOf_from_append indexOf_from_None first_index_def)

lemma indexOf_plain:
  "v \<noteq> NaN \<Longrightarrow> indexOf (map Some s) v = (if v \<in> set s then first_index s v else - 1)"
  using indexOf_padded[of v s 0] by simp

lemma indexOf_defined:
  "v \<noteq> NaN \<Longrightarrow> v \<in> set s \<Longrightarrow> indexOf (map Some s) v = first_index s v"
  by (simp add: indexOf_plain)

lemma indexOf_from_NaN: "indexOf_from arr NaN k = - 1"
  by (induction arr arbitrary: k) (simp_all add: js_strict_eq_def)

lemma indexOf_NaN: "indexOf arr NaN = - 1"
  by (simp add: indexOf_def indexOf_from_NaN)

lemma sorted_Num: "sorted (map Num xs) = sorted xs"
  by (induction xs) auto

lemma set_filled: "set (filled xs a b v) \<subseteq> insert v (set xs)"
  by (auto simp: filled_def)

lemma lock_search_append:
  "lock_search hp (xs @ ys) =
     (case lock_search hp xs of
        Inl e \<Rightarrow> Inl e
      | Inr l \<Rightarrow> if l = - 1 then lock_search hp ys else Inr l)"
  by (induction xs) (auto simp: js_index_def split: option.splits)

lemma first_index_bounds:
  "v \<in> set s \<Longrightarrow> 0 \<le> first_index s v \<and> first_index s v < int (length s) \<and> s ! nat (first_index s v) = v"
proof -
  assume mem: "v \<in> set s"
  have lt: "length (takeWhile (\<lambda>x. x \<noteq> v) s) < length s"
  proof (rule ccontr)
    assume "\<not> length (takeWhile (\<lambda>x. x \<noteq> v) s) < length s"
    then have "length (takeWhile (\<lambda>x. x \<noteq> v) s) = length s"
      using length_takeWhile_le[of "\<lambda>x. x \<noteq> v" s] by linarith
    then have "takeWhile (\<lambda>x. x \<noteq> v) s = s"
      by (metis takeWhile_eq_take take_all order_refl)
    then have "\<forall>x\<in>set s. x \<noteq> v" by (simp add: takeWhile_eq_all_conv)
    with mem show False by blast
  qed
  then have "\<not> (s ! length (takeWhile (\<lambda>x. x \<noteq> v) s) \<noteq> v)"
    by (rule nth_length_takeWhile)
  with lt show ?thesis by (simp add: first_index_def)
qed

lemma fold_assign_range:
  "0 \<le> lo \<Longrightarrow> hi < int (length xs) \<Longrightarrow>
   fold (\<lambda>index arr. js_assign arr index w) [lo..hi] xs
     = map (\<lambda>k. if lo \<le> int k \<and> int k \<le> hi then w else xs ! k) [0..<length xs]"
proof (induction "nat (hi + 1 - lo)" arbitrary: lo xs)
  case 0
  then have "[lo..hi] = []" by simp
  moreover have "map (\<lambda>k. if lo \<le> int k \<and> int k \<le> hi then w else xs ! k) [0..<length xs] = xs"
    using 0 by (intro nth_equalityI) auto
  ultimately show ?case by simp
next
  case (Suc n)
  then have le: "lo \<le> hi" by linarith
  then have up: "[lo..hi] = lo # [lo + 1..hi]" by (simp add: upto_rec1)
  have inr: "nat lo < length xs" using Suc.prems le by linarith
  have step: "js_assign xs lo w = xs[nat lo := w]"
    using Suc.prems inr by (simp add: js_assign_def)
  have "fold (\<lambda>index arr. js_assign arr index w) [lo + 1..hi] (xs[nat lo := w])
      = map (\<lambda>k. if lo + 1 \<le> int k \<and> int k \<le> hi then w else (xs[nat lo := w]) ! k)
            [0..<length (xs[nat lo := w])]"
    using Suc.hyps(2) Suc.prems by (intro Suc.hyps(1)) auto
  also have "\<dots> = map (\<lambda>k. if lo \<le> int k \<and> int k \<le> hi then w else xs ! k) [0..<length xs]"
  proof (intro nth_equalityI)
    fix k
    assume "k < length (map (\<lambda>k. if lo + 1 \<le> int k \<and> int k \<le> hi then w else (xs[nat lo := w]) ! k)
                        [0..<length (xs[nat lo := w])])"
    then have k: "k < length xs" by simp
    have "int k = lo \<longleftrightarrow> k = nat lo" using \<open>0 \<le> lo\<close> by linarith
    then show "map (\<lambda>k. if lo + 1 \<le> int k \<and> int k \<le> hi then w else (xs[nat lo := w]) ! k)
                 [0..<length (xs[nat lo := w])] ! k
             = map (\<lambda>k. if lo \<le> int k \<and> int k \<le> hi then w else xs ! k) [0..<length xs] ! k"
      using k le by (cases "int k = lo") (auto simp: nth_list_update)
  qed simp
  finally show ?case by (simp add: up step)
qed

lemma fillValues_in_range:
  assumes "0 \<le> a" "a < int (length xs)" "0 \<le> b" "b < int (length xs)"
  shows "fillValues (map Some xs) a b (Some v) = map Some (filled xs a b v)"
proof -
  have "fillValues (map Some xs) a b (Some v)
        = map (\<lambda>k. if min a b \<le> int k \<and> int k \<le> max a b then Some v else map Some xs ! k)
              [0..<length (map Some xs)]"
    unfolding fillValues_def using assms by (intro fold_assign_range) auto
  also have "\<dots> = map Some (filled xs a b v)"
    by (intro nth_equalityI) (auto simp: filled_def)
  finally show ?thesis .
qed

lemma fillValues_from_minus_one:
  assumes "0 \<le> b" "b < int (length xs)"
  shows "fillValues (map Some xs) (- 1) b (Some w) = map Some (filled xs (- 1) b w)"
proof -
  have up: "[- 1..b] = (- 1) # [0..b]" using assms by (simp add: upto_rec1)
  have "fillValues (map Some xs) (- 1) b (Some w)
          = fold (\<lambda>index arr. js_assign arr index (Some w)) [0..b] (map Some xs)"
    using assms by (simp add: fillValues_def min_def max_def up js_assign_def)
  also have "\<dots> = map (\<lambda>k. if 0 \<le> int k \<and> int k \<le> b then Some w else map Some xs ! k)
                      [0..<length (map Some xs)]"
    using assms by (intro fold_assign_range) auto
  also have "\<dots> = map Some (filled xs (- 1) b w)"
    using assms by (intro nth_equalityI) (auto simp: filled_def)
  finally show ?thesis .
qed

lemma fillValues_minus_one_only: "fillValues arr (- 1) (- 1) w = arr"
  by (simp add: fillValues_def js_assign_def)

lemma fillValues_to_length:
  assumes "0 \<le> l" "l < int (length xs)"
  shows "fillValues (map Some xs) (int (length xs)) l (Some w)
           = map Some (filled xs (int (length xs)) l w @ [w])"
proof -
  let ?n = "int (length xs)"
  have up: "[l..?n] = [l..?n - 1] @ [?n]" using assms by (simp add: upto_rec2)
  have inner: "fold (\<lambda>index arr. js_assign arr index (Some w)) [l..?n - 1] (map Some xs)
          = map (\<lambda>k. if l \<le> int k \<and> int k \<le> ?n - 1 then Some w else map Some xs ! k)
                [0..<length (map Some xs)]"
    using assms by (intro fold_assign_range) auto
  also have "\<dots> = map Some (filled xs ?n l w)"
    using assms by (intro nth_equalityI) (auto simp: filled_def)
  finally have inner': "fold (\<lambda>index arr. js_assign arr index (Some w)) [l..?n - 1] (map Some xs)
          = map Some (filled xs ?n l w)" .
  have "fillValues (map Some xs) ?n l (Some w)
          = js_assign (map Some (filled xs ?n l w)) ?n (Some w)"
    using assms by (simp add: fillValues_def min_def max_def up inner')
  also have "\<dots> = map Some (filled xs ?n l w @ [w])"
    by (simp add: js_assign_def filled_def)
  finally show ?thesis .
qed

lemma scan_order_bounds:
  "0 \<le> s \<Longrightarrow> s < n \<Longrightarrow> 0 \<le> e \<Longrightarrow> e < n \<Longrightarrow> k \<in> set (scan_order s e) \<Longrightarrow> 0 \<le> k \<and> k < n"
  by (auto simp: scan_order_def split: if_splits)

lemma find_mem: "find P xs = Some x \<Longrightarrow> x \<in> set xs \<and> P x"
  by (induction xs) (auto split: if_splits)

lemma find_None_all: "find P xs = None \<longleftrightarrow> (\<forall>x \<in> set xs. \<not> P x)"
  by (induction xs) auto

lemma loop_up_total:
  "index \<le> e + 1 \<Longrightarrow>
   findFirstLocked_loop hp 1 e index = Some (lock_search hp [index..e])"
proof (induction "nat (e + 1 - index)" arbitrary: index)
  case 0
  then have "index = e + 1" by linarith
  then show ?case by (subst findFirstLocked_loop.simps) simp
next
  case (Suc n)
  then have le: "index \<le> e" by linarith
  then have up: "[index..e] = index # [index + 1..e]" by (simp add: upto_rec1)
  have "findFirstLocked_loop hp 1 e (index + 1) = Some (lock_search hp [index + 1..e])"
    using Suc.hyps(2) le by (intro Suc.hyps(1)) auto
  then show ?case
    using le by (subst findFirstLocked_loop.simps) (simp add: up split: option.splits)
qed

lemma loop_down_total:
  "e - 1 \<le> index \<Longrightarrow>
   findFirstLocked_loop hp (- 1) e index = Some (lock_search hp (rev [e..index]))"
proof (induction "nat (index + 1 - e)" arbitrary: index)
  case 0
  then have "index = e - 1" by linarith
  then show ?case by (subst findFirstLocked_loop.simps) simp
next
  case (Suc n)
  then have le: "e \<le> index" by linarith
  then have up: "rev [e..index] = index # rev [e..index - 1]" by (simp add: upto_rec2)
  have "findFirstLocked_loop hp (- 1) e (index - 1) = Some (lock_search hp (rev [e..index - 1]))"
    using Suc.hyps(2) le by (intro Suc.hyps(1)) auto
  then show ?case
    using le by (subst findFirstLocked_loop.simps) (simp add: up split: option.splits)
qed

lemma findFirstLockedHandleIndex_total:
  "findFirstLockedHandleIndex props s e
     = Some (lock_search (getSortedInteractiveHandleProps props) (scan_order s e))"
proof (cases "s < e")
  case True
  then show ?thesis
    using loop_up_total[of "s + 1" e "getSortedInteractiveHandleProps props"]
    by (simp add: findFirstLockedHandleIndex_def scan_order_def)
next
  case False
  then show ?thesis
    using loop_down_total[of e "s - 1" "getSortedInteractiveHandleProps props"]
    by (simp add: findFirstLockedHandleIndex_def scan_order_def)
qed

lemma lock_search_in_range:
  "\<forall>k \<in> set ks. 0 \<le> k \<and> k < int (length hp) \<Longrightarrow>
   lock_search hp ks = Inr (case find (is_locked hp) ks of None \<Rightarrow> - 1 | Some k \<Rightarrow> k)"
  by (induction ks) (auto simp: js_index_def is_locked_def)

lemma find_result:
  assumes "\<forall>k \<in> set ks. 0 \<le> k \<and> k < int (length hp)"
  shows "(find (is_locked hp) ks = None \<and> lock_search hp ks = Inr (- 1))
       \<or> (\<exists>l \<in> set ks. find (is_locked hp) ks = Some l \<and> lock_search hp ks = Inr l \<and> l \<noteq> - 1)"
proof (cases "find (is_locked hp) ks")
  case None
  then show ?thesis using lock_search_in_range[OF assms] by simp
next
  case (Some l)
  then have "l \<in> set ks" using find_mem by fastforce
  then show ?thesis using Some lock_search_in_range[OF assms] assms by force
qed

lemma findFirstLockedHandleIndex_in_range:
  assumes "0 \<le> s" "s < int (length (getSortedInteractiveHandleProps props))"
      and "0 \<le> e" "e < int (length (getSortedInteractiveHandleProps props))"
  shows "findFirstLockedHandleIndex props s e
           = Some (Inr (first_locked (getSortedInteractiveHandleProps props) s e))"
proof -
  have "\<forall>k \<in> set (scan_order s e).
          0 \<le> k \<and> k < int (length (getSortedInteractiveHandleProps props))"
    using scan_order_bounds[OF assms] by blast
  then show ?thesis
    by (simp add: findFirstLockedHandleIndex_total lock_search_in_range first_locked_def)
qed

lemma getNewHandleValues_unfold:
  "getNewHandleValues engine props newValue oldIndex =
     (let hp = getSortedInteractiveHandleProps props;
          oldValues = map Some (map (\<lambda>handle. Num (IHandleProps.value handle)) hp);
          newValues = js_sort_numbers engine (js_assign oldValues oldIndex (Some newValue));
          newIndex = indexOf newValues newValue
      in case lock_search hp (scan_order oldIndex newIndex) of
           Inl e \<Rightarrow> Some (Inl e)
         | Inr lockIndex \<Rightarrow>
             if lockIndex = - 1
             then Some (Inr (fillValues newValues oldIndex newIndex (Some newValue)))
             else Some (Inr (fillValues oldValues oldIndex lockIndex (js_read oldValues lockIndex))))"
  unfolding getNewHandleValues_def Let_def findFirstLockedHandleIndex_total map_map comp_def
  by simp

lemma getNewHandleValues_total:
  "\<exists>result. getNewHandleValues engine props newValue oldIndex = Some result"
  by (simp add: getNewHandleValues_def Let_def findFirstLockedHandleIndex_total
        split: sum.splits)

lemma old_values_no_NaN: "NaN \<notin> set (map (\<lambda>handle. Num (IHandleProps.value handle)) hp)"
  by auto

lemma old_values_sorted:
  "sorted (map (\<lambda>handle. Num (IHandleProps.value handle)) (getSortedInteractiveHandleProps props))"
proof -
  have "sorted (map IHandleProps.value (getSortedInteractiveHandleProps props))"
    by (simp add: getSortedInteractiveHandleProps_def getSortedHandleProps_eq)
  then have "sorted (map Num (map IHandleProps.value (getSortedInteractiveHandleProps props)))"
    by (simp only: sorted_Num)
  then show ?thesis by (simp add: comp_def)
qed

lemma filled_sorted:
  assumes "sorted xs" "0 \<le> l" "l < int (length xs)" "v = xs ! nat l" 
  shows "sorted (filled xs a l v)"
  unfolding sorted_iff_nth_mono
proof (intro allI impI)
  fix p q
  assume pq: "p \<le> q" and q: "q < length (filled xs a l v)"
  then have q': "q < length xs" and p': "p < length xs" by (simp_all add: filled_def)
  have mono: "\<And>x y. x \<le> y \<Longrightarrow> y < length xs \<Longrightarrow> xs ! x \<le> xs ! y"
    using assms(1) by (simp add: sorted_iff_nth_mono)
  define inP where "inP \<longleftrightarrow> min a l \<le> int p \<and> int p \<le> max a l"
  define inQ where "inQ \<longleftrightarrow> min a l \<le> int q \<and> int q \<le> max a l"
  have fp: "filled xs a l v ! p = (if inP then v else xs ! p)"
    using p' by (simp add: filled_def inP_def)
  have fq: "filled xs a l v ! q = (if inQ then v else xs ! q)"
    using q' by (simp add: filled_def inQ_def)
  have lo: "xs ! p \<le> v" if "\<not> inP" "inQ"
  proof -
    have "int p < min a l" using that pq by (auto simp: inP_def inQ_def)
    then have "p \<le> nat l" by linarith
    then show ?thesis using assms mono[of p "nat l"] by simp
  qed
  have hi: "v \<le> xs ! q" if "inP" "\<not> inQ"
  proof -
    have "max a l < int q" using that pq by (auto simp: inP_def inQ_def)
    then have "nat l \<le> q" by linarith
    then show ?thesis using assms q' mono[of "nat l" q] by simp
  qed
  show "filled xs a l v ! p \<le> filled xs a l v ! q"
    using lo hi mono[OF pq q'] by (cases inP; cases inQ) (simp_all add: fp fq)
qed

lemma filled_upper_bound:
  assumes "sorted xs" "0 \<le> l" "l < int (length xs)" "int (length xs) \<le> a"
  shows "\<forall>x \<in> set (filled xs a l (xs ! nat l)). x \<le> xs ! nat l"
proof
  fix x assume "x \<in> set (filled xs a l (xs ! nat l))"
  then obtain k where k: "k < length xs" "x = filled xs a l (xs ! nat l) ! k"
    by (auto simp: in_set_conv_nth filled_def)
  show "x \<le> xs ! nat l"
  proof (cases "l \<le> int k")
    case True
    then show ?thesis using k assms by (simp add: filled_def)
  next
    case False
    then have "k \<le> nat l" by linarith
    then have "xs ! k \<le> xs ! nat l"
      using assms by (simp add: sorted_iff_nth_mono)
    then show ?thesis using k assms False by (simp add: filled_def)
  qed
qed

lemma getNewHandleValues_in_range:
  assumes i0: "0 \<le> oldIndex"
      and iN: "oldIndex < int (length (getSortedInteractiveHandleProps props))"
      and nn: "newValue \<noteq> NaN"
  shows "getNewHandleValues engine props newValue oldIndex
           = Some (Inr (map Some (reconciled (getSortedInteractiveHandleProps props) newValue oldIndex)))"
proof -
  define hp where "hp = getSortedInteractiveHandleProps props"
  define old where "old = map (\<lambda>handle. Num (IHandleProps.value handle)) hp"
  define s where "s = sort (old[nat oldIndex := newValue])"
  define j where "j = first_index s newValue"
  have len_old: "length old = length hp" by (simp add: old_def)
  have len_s: "length s = length hp" by (simp add: s_def len_old)
  have inr: "nat oldIndex < length old" using i0 iN by (simp add: hp_def len_old)
  have mem: "newValue \<in> set s"
    using inr by (simp add: s_def set_update_memI)
  have jb: "0 \<le> j" "j < int (length hp)" "s ! nat j = newValue"
    using first_index_bounds[OF mem] by (simp_all add: j_def len_s)
  have "NaN \<notin> set old" by (auto simp: old_def)
  then have nu: "NaN \<notin> set (old[nat oldIndex := newValue])"
    using nn set_update_subset_insert[of old "nat oldIndex" newValue] by auto
  have nv: "js_sort_numbers engine (js_assign (map Some old) oldIndex (Some newValue)) = map Some s"
    using i0 inr nu by (simp add: js_assign_in_range js_sort_numbers_defined s_def)
  have ni: "indexOf (map Some s) newValue = j"
    using mem nn by (simp add: indexOf_defined j_def)
  have rd: "\<And>l. 0 \<le> l \<Longrightarrow> l < int (length hp) \<Longrightarrow> js_read (map Some old) l = Some (old ! nat l)"
    by (simp add: js_read_def js_index_def len_old)
  note G = getNewHandleValues_unfold[of engine props newValue oldIndex, unfolded Let_def,
             folded hp_def, folded old_def]
  have so: "\<forall>k \<in> set (scan_order oldIndex j). 0 \<le> k \<and> k < int (length hp)"
    using scan_order_bounds[of oldIndex "int (length hp)" j] i0 iN jb by (auto simp: hp_def)
  from find_result[OF so] show ?thesis
  proof (elim disjE conjE bexE)
    assume f: "find (is_locked hp) (scan_order oldIndex j) = None"
       and ls: "lock_search hp (scan_order oldIndex j) = Inr (- 1)"
    have "fillValues (map Some s) oldIndex j (Some newValue) = map Some (filled s oldIndex j newValue)"
      using i0 iN jb by (intro fillValues_in_range) (simp_all add: len_s hp_def)
    then show ?thesis
      using f ls
      by (simp add: G nv ni hp_def[symmetric] reconciled_def Let_def old_def[symmetric]
            s_def[symmetric] j_def[symmetric])
  next
    fix l assume l: "l \<in> set (scan_order oldIndex j)"
      and f: "find (is_locked hp) (scan_order oldIndex j) = Some l"
      and ls: "lock_search hp (scan_order oldIndex j) = Inr l" and ne: "l \<noteq> - 1"
    have lb: "0 \<le> l" "l < int (length hp)" using so l by simp_all
    have "fillValues (map Some old) oldIndex l (Some (old ! nat l))
            = map Some (filled old oldIndex l (old ! nat l))"
      using i0 iN lb by (intro fillValues_in_range) (simp_all add: len_old hp_def)
    then show ?thesis
      using f ls ne lb
      by (simp add: G nv ni rd hp_def[symmetric] reconciled_def Let_def old_def[symmetric]
            s_def[symmetric] j_def[symmetric])
  qed
qed

lemma getNewHandleValues_NaN_in_range:
  assumes i0: "0 \<le> oldIndex"
      and iN: "oldIndex < int (length (getSortedInteractiveHandleProps props))"
  shows "getNewHandleValues engine props NaN oldIndex
           = Some (case reconciled_NaN (getSortedInteractiveHandleProps props) oldIndex of
                     Inl e \<Rightarrow> Inl e | Inr vs \<Rightarrow> Inr (map Some vs))"
proof -
  define hp where "hp = getSortedInteractiveHandleProps props"
  define old where "old = map (\<lambda>handle. Num (IHandleProps.value handle)) hp"
  have len_old: "length old = length hp" by (simp add: old_def)
  have rd: "\<And>l. 0 \<le> l \<Longrightarrow> l < int (length hp) \<Longrightarrow> js_read (map Some old) l = Some (old ! nat l)"
    by (simp add: js_read_def js_index_def len_old)
  note G = getNewHandleValues_unfold[of engine props NaN oldIndex, unfolded Let_def indexOf_NaN,
             folded hp_def, folded old_def]
  have so: "scan_order oldIndex (- 1) = rev [0..oldIndex - 1] @ [- 1]"
    using i0 upto_rec1[of "- 1" "oldIndex - 1"] by (simp add: scan_order_def)
  have out: "js_index hp (- 1) = None" by (simp add: js_index_def)
  have inr: "\<forall>k \<in> set (rev [0..oldIndex - 1]). 0 \<le> k \<and> k < int (length hp)"
    using iN by (auto simp: hp_def)
  from find_result[OF inr] show ?thesis
  proof (elim disjE conjE bexE)
    assume f: "find (is_locked hp) (rev [0..oldIndex - 1]) = None"
       and ls: "lock_search hp (rev [0..oldIndex - 1]) = Inr (- 1)"
    have "lock_search hp (scan_order oldIndex (- 1)) = Inl TypeError"
      by (simp add: so lock_search_append ls out)
    then show ?thesis
      using f by (simp add: G hp_def[symmetric] reconciled_NaN_def)
  next
    fix l assume l: "l \<in> set (rev [0..oldIndex - 1])"
      and f: "find (is_locked hp) (rev [0..oldIndex - 1]) = Some l"
      and ls: "lock_search hp (rev [0..oldIndex - 1]) = Inr l" and ne: "l \<noteq> - 1"
    have lb: "0 \<le> l" "l < int (length hp)" using inr l by simp_all
    have s: "lock_search hp (scan_order oldIndex (- 1)) = Inr l"
      using ne by (simp add: so lock_search_append ls)
    have "fillValues (map Some old) oldIndex l (Some (old ! nat l))
            = map Some (filled old oldIndex l (old ! nat l))"
      using i0 iN lb by (intro fillValues_in_range) (simp_all add: len_old hp_def)
    then show ?thesis
      using f s ne lb
      by (simp add: G rd hp_def[symmetric] reconciled_NaN_def Let_def old_def[symmetric])
  qed
qed

lemma reconciled_sorted:
  assumes i0: "0 \<le> oldIndex" and iN: "oldIndex < int (length hp)"
      and srt: "sorted (map (\<lambda>handle. Num (IHandleProps.value handle)) hp)"
      and nn: "newValue \<noteq> NaN"
  shows "sorted (reconciled hp newValue oldIndex) \<and> NaN \<notin> set (reconciled hp newValue oldIndex)"
proof -
  define old where "old = map (\<lambda>handle. Num (IHandleProps.value handle)) hp"
  define s where "s = sort (old[nat oldIndex := newValue])"
  define j where "j = first_index s newValue"
  have len_old: "length old = length hp" by (simp add: old_def)
  have len_s: "length s = length hp" by (simp add: s_def len_old)
  have mem: "newValue \<in> set s"
    using i0 iN by (simp add: s_def set_update_memI len_old)
  have jb: "0 \<le> j" "j < int (length hp)" "s ! nat j = newValue"
    using first_index_bounds[OF mem] by (simp_all add: j_def len_s)
  have no: "NaN \<notin> set old" by (auto simp: old_def)
  then have ns: "NaN \<notin> set s"
    using nn set_update_subset_insert[of old "nat oldIndex" newValue] by (auto simp: s_def)
  show ?thesis
  proof (cases "find (is_locked hp) (scan_order oldIndex j)")
    case None
    have "sorted (filled s oldIndex j newValue)"
      using jb by (intro filled_sorted) (simp_all add: len_s, simp add: s_def)
    moreover have "NaN \<notin> set (filled s oldIndex j newValue)"
      using set_filled[of s oldIndex j newValue] ns nn by auto
    ultimately show ?thesis
      using None by (simp add: reconciled_def Let_def old_def[symmetric] s_def[symmetric] j_def[symmetric])
  next
    case (Some l)
    have "l \<in> set (scan_order oldIndex j)" using find_mem[OF Some] by simp
    then have lb: "0 \<le> l" "l < int (length hp)"
      using scan_order_bounds[of oldIndex "int (length hp)" j l] i0 iN jb by simp_all
    have "sorted (filled old oldIndex l (old ! nat l))"
      using lb srt by (intro filled_sorted) (simp_all add: old_def)
    moreover have "old ! nat l \<in> set old" using lb len_old by simp
    then have "NaN \<notin> set (filled old oldIndex l (old ! nat l))"
      using set_filled[of old oldIndex l "old ! nat l"] no by auto
    ultimately show ?thesis
      using Some by (simp add: reconciled_def Let_def old_def[symmetric] s_def[symmetric] j_def[symmetric])
  qed
qed

lemma getNewHandleValues_NaN_sorted:
  assumes res: "getNewHandleValues engine props NaN oldIndex = Some (Inr arr)"
  shows "\<exists>vs. arr = map Some vs \<and> sorted vs \<and> NaN \<notin> set vs"
proof -
  define hp where "hp = getSortedInteractiveHandleProps props"
  define old where "old = map (\<lambda>handle. Num (IHandleProps.value handle)) hp"
  define n where "n = int (length hp)"
  have srt: "sorted old" unfolding old_def hp_def by (rule old_values_sorted)
  have no: "NaN \<notin> set old" by (auto simp: old_def)
  have len_old: "int (length old) = n" by (simp add: old_def n_def)
  have rd: "\<And>l. 0 \<le> l \<Longrightarrow> l < n \<Longrightarrow> js_read (map Some old) l = Some (old ! nat l)"
    using len_old by (simp add: js_read_def js_index_def)
  note G = getNewHandleValues_unfold[of engine props NaN oldIndex, unfolded Let_def indexOf_NaN,
             folded hp_def, folded old_def]
  consider (upto_end) "0 \<le> oldIndex" "oldIndex \<le> n"
    | (past) "n < oldIndex"
    | (before) "oldIndex = - 1"
    | (far_before) "oldIndex < - 1"
    by linarith
  then show ?thesis
  proof cases
    case upto_end
    have so: "scan_order oldIndex (- 1) = rev [0..oldIndex - 1] @ [- 1]"
      using upto_end upto_rec1[of "- 1" "oldIndex - 1"] by (simp add: scan_order_def)
    have out: "js_index hp (- 1) = None" by (simp add: js_index_def)
    have inr: "\<forall>k \<in> set (rev [0..oldIndex - 1]). 0 \<le> k \<and> k < int (length hp)"
      using upto_end by (auto simp: n_def)
    from find_result[OF inr] show ?thesis
    proof (elim disjE conjE bexE)
      assume "lock_search hp (rev [0..oldIndex - 1]) = Inr (- 1)"
      then have "lock_search hp (scan_order oldIndex (- 1)) = Inl TypeError"
        by (simp add: so lock_search_append out)
      then show ?thesis using res by (simp add: G)
    next
      fix l assume l: "l \<in> set (rev [0..oldIndex - 1])"
        and ls: "lock_search hp (rev [0..oldIndex - 1]) = Inr l" and ne: "l \<noteq> - 1"
      have lb: "0 \<le> l" "l < n" "l < oldIndex" using inr l by (simp_all add: n_def)
      have s: "lock_search hp (scan_order oldIndex (- 1)) = Inr l"
        using ne by (simp add: so lock_search_append ls)
      have a: "arr = fillValues (map Some old) oldIndex l (Some (old ! nat l))"
        using res s ne lb by (simp add: G rd)
      have mem: "old ! nat l \<in> set old" using lb len_old by simp
      show ?thesis
      proof (cases "oldIndex < n")
        case True
        have "fillValues (map Some old) oldIndex l (Some (old ! nat l))
                = map Some (filled old oldIndex l (old ! nat l))"
          using upto_end True lb len_old by (intro fillValues_in_range) simp_all
        moreover have "sorted (filled old oldIndex l (old ! nat l))"
          using srt lb len_old by (intro filled_sorted) simp_all
        moreover have "NaN \<notin> set (filled old oldIndex l (old ! nat l))"
          using set_filled[of old oldIndex l "old ! nat l"] no mem by auto
        ultimately show ?thesis using a by auto
      next
        case False
        then have e: "oldIndex = int (length old)" using upto_end len_old by simp
        have "fillValues (map Some old) oldIndex l (Some (old ! nat l))
                = map Some (filled old (int (length old)) l (old ! nat l) @ [old ! nat l])"
          using fillValues_to_length[of l old "old ! nat l"] lb len_old e by simp
        moreover have "sorted (filled old (int (length old)) l (old ! nat l))"
          using srt lb len_old by (intro filled_sorted) simp_all
        moreover have "\<forall>x \<in> set (filled old (int (length old)) l (old ! nat l)). x \<le> old ! nat l"
          using srt lb len_old by (intro filled_upper_bound) simp_all
        moreover have "NaN \<notin> set (filled old (int (length old)) l (old ! nat l) @ [old ! nat l])"
          using set_filled[of old "int (length old)" l "old ! nat l"] no mem by auto
        ultimately show ?thesis using a
          by (intro exI[of _ "filled old (int (length old)) l (old ! nat l) @ [old ! nat l]"])
             (auto simp: sorted_append)
      qed
    qed
  next
    case past
    have so: "scan_order oldIndex (- 1) = (oldIndex - 1) # rev [- 1..oldIndex - 1 - 1]"
      using past upto_rec2[of "- 1" "oldIndex - 1"] by (simp add: scan_order_def n_def)
    have "js_index hp (oldIndex - 1) = None"
      using past by (simp add: js_index_def n_def)
    then have "lock_search hp (scan_order oldIndex (- 1)) = Inl TypeError"
      by (simp add: so)
    then show ?thesis using res by (simp add: G)
  next
    case before
    have nv: "js_sort_numbers engine (js_assign (map Some old) oldIndex (Some NaN)) = map Some (sort old)"
      using before no by (simp add: js_assign_def js_sort_numbers_defined)
    have "lock_search hp (scan_order oldIndex (- 1)) = Inr (- 1)"
      using before by (simp add: scan_order_def)
    then have "arr = fillValues (map Some (sort old)) oldIndex (- 1) (Some NaN)"
      using res by (simp add: G nv)
    then have "arr = map Some (sort old)"
      using before by (simp add: fillValues_minus_one_only)
    then show ?thesis using no by auto
  next
    case far_before
    have so: "scan_order oldIndex (- 1) = (oldIndex + 1) # [oldIndex + 1 + 1..- 1]"
      using far_before upto_rec1[of "oldIndex + 1" "- 1"] by (simp add: scan_order_def)
    have "js_index hp (oldIndex + 1) = None"
      using far_before by (simp add: js_index_def)
    then have "lock_search hp (scan_order oldIndex (- 1)) = Inl TypeError"
      by (simp add: so)
    then show ?thesis using res by (simp add: G)
  qed
qed

lemma getNewHandleValues_value_sorted:
  assumes res: "getNewHandleValues engine props newValue oldIndex = Some (Inr arr)"
      and nn: "newValue \<noteq> NaN"
  shows "\<exists>vs. arr = map Some vs \<and> sorted vs \<and> NaN \<notin> set vs"
proof -
  define hp where "hp = getSortedInteractiveHandleProps props"
  define old where "old = map (\<lambda>handle. Num (IHandleProps.value handle)) hp"
  define n where "n = int (length hp)"
  have srt: "sorted old" unfolding old_def hp_def by (rule old_values_sorted)
  have no: "NaN \<notin> set old" by (auto simp: old_def)
  have len_old: "int (length old) = n" by (simp add: old_def n_def)
  have rd: "\<And>l. 0 \<le> l \<Longrightarrow> l < n \<Longrightarrow> js_read (map Some old) l = Some (old ! nat l)"
    using len_old by (simp add: js_read_def js_index_def)
  note G = getNewHandleValues_unfold[of engine props newValue oldIndex, unfolded Let_def,
             folded hp_def, folded old_def]
  consider (inside) "0 \<le> oldIndex" "oldIndex < n"
    | (at_end) "oldIndex = n"
    | (past) "n < oldIndex"
    | (before) "oldIndex = - 1"
    | (far_before) "oldIndex < - 1"
    by linarith
  then show ?thesis
  proof cases
    case inside
    then have "getNewHandleValues engine props newValue oldIndex
                 = Some (Inr (map Some (reconciled hp newValue oldIndex)))"
      using nn unfolding hp_def n_def by (intro getNewHandleValues_in_range)
    moreover have "sorted (reconciled hp newValue oldIndex) \<and> NaN \<notin> set (reconciled hp newValue oldIndex)"
      using inside srt nn unfolding n_def old_def by (intro reconciled_sorted)
    ultimately show ?thesis using res by auto
  next
    case at_end
    define s where "s = sort (old @ [newValue])"
    define j where "j = first_index s newValue"
    have mem: "newValue \<in> set s" by (simp add: s_def)
    have ns: "NaN \<notin> set s" using no nn by (simp add: s_def)
    have len_s: "int (length s) = n + 1" using len_old by (simp add: s_def)
    have jb: "0 \<le> j" "j < n + 1" "s ! nat j = newValue"
      using first_index_bounds[OF mem] len_s by (simp_all add: j_def)
    have nv: "js_sort_numbers engine (js_assign (map Some old) oldIndex (Some newValue)) = map Some s"
      using js_sort_assign_past[of old oldIndex newValue engine] at_end len_old no nn by (simp add: s_def)
    have ni: "indexOf (map Some s) newValue = j"
      using mem nn by (simp add: indexOf_plain j_def)
    have so: "\<forall>k \<in> set (scan_order oldIndex j). 0 \<le> k \<and> k < int (length hp)"
      using at_end jb by (auto simp: scan_order_def n_def)
    from find_result[OF so] show ?thesis
    proof (elim disjE conjE bexE)
      assume "lock_search hp (scan_order oldIndex j) = Inr (- 1)"
      then have "arr = fillValues (map Some s) oldIndex j (Some newValue)"
        using res by (simp add: G nv ni)
      also have "\<dots> = map Some (filled s oldIndex j newValue)"
        using at_end jb len_s by (intro fillValues_in_range) simp_all
      finally have "arr = map Some (filled s oldIndex j newValue)" .
      moreover have "sorted (filled s oldIndex j newValue)"
        using jb len_s by (intro filled_sorted) (simp_all add: s_def)
      moreover have "NaN \<notin> set (filled s oldIndex j newValue)"
        using set_filled[of s "oldIndex" j newValue] ns nn by auto
      ultimately show ?thesis by blast
    next
      fix l assume l: "l \<in> set (scan_order oldIndex j)"
        and ls: "lock_search hp (scan_order oldIndex j) = Inr l" and ne: "l \<noteq> - 1"
      have lb: "0 \<le> l" "l < n" using so l by (simp_all add: n_def)
      have "arr = fillValues (map Some old) oldIndex l (Some (old ! nat l))"
        using res ls ne lb by (simp add: G nv ni rd)
      also have "\<dots> = map Some (filled old (int (length old)) l (old ! nat l) @ [old ! nat l])"
        using fillValues_to_length[of l old "old ! nat l"] lb at_end len_old by simp
      finally have a: "arr = map Some (filled old (int (length old)) l (old ! nat l) @ [old ! nat l])" .
      have "sorted (filled old (int (length old)) l (old ! nat l))"
        using srt lb len_old by (intro filled_sorted) simp_all
      moreover have "\<forall>x \<in> set (filled old (int (length old)) l (old ! nat l)). x \<le> old ! nat l"
        using srt lb len_old by (intro filled_upper_bound) simp_all
      ultimately have "sorted (filled old (int (length old)) l (old ! nat l) @ [old ! nat l])"
        by (simp add: sorted_append)
      moreover have "old ! nat l \<in> set old" using lb len_old by simp
      then have "NaN \<notin> set (filled old (int (length old)) l (old ! nat l) @ [old ! nat l])"
        using set_filled[of old "int (length old)" l "old ! nat l"] no by auto
      ultimately show ?thesis using a by blast
    qed
  next
    case past
    define s where "s = sort (old @ [newValue])"
    define j where "j = first_index s newValue"
    have mem: "newValue \<in> set s" by (simp add: s_def)
    have ns: "NaN \<notin> set s" using no nn by (simp add: s_def)
    have len_s: "int (length s) = n + 1" using len_old by (simp add: s_def)
    have jb: "0 \<le> j" "j < n + 1"
      using first_index_bounds[OF mem] len_s by (simp_all add: j_def)
    have nv: "js_sort_numbers engine (js_assign (map Some old) oldIndex (Some newValue))
                = map Some s @ replicate (nat oldIndex - length old) None"
      using js_sort_assign_past[of old oldIndex newValue engine] past len_old no nn by (simp add: s_def)
    have ni: "indexOf (map Some s @ replicate (nat oldIndex - length old) None) newValue = j"
      using mem nn by (simp add: indexOf_padded j_def)
    have so: "scan_order oldIndex j = (oldIndex - 1) # rev [j..oldIndex - 1 - 1]"
      using past jb upto_rec2[of j "oldIndex - 1"] by (simp add: scan_order_def)
    have "js_index hp (oldIndex - 1) = None"
      using past by (simp add: js_index_def n_def)
    then have "lock_search hp (scan_order oldIndex j) = Inl TypeError"
      by (simp add: so)
    then show ?thesis using res by (simp add: G nv ni)
  next
    case before
    define s where "s = sort old"
    define j where "j = (if newValue \<in> set s then first_index s newValue else - 1)"
    have len_s: "int (length s) = n" using len_old by (simp add: s_def)
    have ns: "NaN \<notin> set s" using no by (simp add: s_def)
    have nv: "js_sort_numbers engine (js_assign (map Some old) oldIndex (Some newValue)) = map Some s"
      using before no by (simp add: js_assign_def js_sort_numbers_defined s_def)
    have ni: "indexOf (map Some s) newValue = j"
      using nn by (simp add: indexOf_plain j_def)
    show ?thesis
    proof (cases "newValue \<in> set s")
      case False
      then have j: "j = - 1" by (simp add: j_def)
      have "lock_search hp (scan_order oldIndex j) = Inr (- 1)"
        using before j by (simp add: scan_order_def)
      then have "arr = fillValues (map Some s) oldIndex j (Some newValue)"
        using res by (simp add: G nv ni)
      then have "arr = map Some s"
        using before j by (simp add: fillValues_minus_one_only)
      then show ?thesis using no by (auto simp: s_def)
    next
      case True
      then have jj: "j = first_index s newValue" by (simp add: j_def)
      have jb: "0 \<le> j" "j < n" "s ! nat j = newValue"
        using first_index_bounds[OF True] len_s by (simp_all add: jj)
      have so: "\<forall>k \<in> set (scan_order oldIndex j). 0 \<le> k \<and> k < int (length hp)"
        using before jb by (auto simp: scan_order_def n_def)
      from find_result[OF so] show ?thesis
      proof (elim disjE conjE bexE)
        assume "lock_search hp (scan_order oldIndex j) = Inr (- 1)"
        then have "arr = fillValues (map Some s) oldIndex j (Some newValue)"
          using res by (simp add: G nv ni)
        then have "arr = fillValues (map Some s) (- 1) j (Some newValue)"
          using before by simp
        also have "\<dots> = map Some (filled s (- 1) j newValue)"
          using jb len_s by (intro fillValues_from_minus_one) simp_all
        finally have "arr = map Some (filled s (- 1) j newValue)" .
        moreover have "sorted (filled s (- 1) j newValue)"
          using jb len_s by (intro filled_sorted) (simp_all add: s_def)
        moreover have "NaN \<notin> set (filled s (- 1) j newValue)"
          using set_filled[of s "- 1" j newValue] ns nn by auto
        ultimately show ?thesis by blast
      next
        fix l assume l: "l \<in> set (scan_order oldIndex j)"
          and ls: "lock_search hp (scan_order oldIndex j) = Inr l" and ne: "l \<noteq> - 1"
        have lb: "0 \<le> l" "l < n" using so l by (simp_all add: n_def)
        have "arr = fillValues (map Some old) oldIndex l (Some (old ! nat l))"
          using res ls ne lb by (simp add: G nv ni rd)
        then have "arr = fillValues (map Some old) (- 1) l (Some (old ! nat l))"
          using before by simp
        also have "\<dots> = map Some (filled old (- 1) l (old ! nat l))"
          using lb len_old by (intro fillValues_from_minus_one) simp_all
        finally have "arr = map Some (filled old (- 1) l (old ! nat l))" .
        moreover have "sorted (filled old (- 1) l (old ! nat l))"
          using srt lb len_old by (intro filled_sorted) simp_all
        moreover have "old ! nat l \<in> set old" using lb len_old by simp
        then have "NaN \<notin> set (filled old (- 1) l (old ! nat l))"
          using set_filled[of old "- 1" l "old ! nat l"] no by auto
        ultimately show ?thesis by blast
      qed
    qed
  next
    case far_before
    define s where "s = sort old"
    define j where "j = (if newValue \<in> set s then first_index s newValue else - 1)"
    have nv: "js_sort_numbers engine (js_assign (map Some old) oldIndex (Some newValue)) = map Some s"
      using far_before no by (simp add: js_assign_def js_sort_numbers_defined s_def)
    have ni: "indexOf (map Some s) newValue = j"
      using nn by (simp add: indexOf_plain j_def)
    have jb: "- 1 \<le> j"
      by (simp add: j_def first_index_def)
    have so: "scan_order oldIndex j = (oldIndex + 1) # [oldIndex + 1 + 1..j]"
      using far_before jb upto_rec1[of "oldIndex + 1" j] by (simp add: scan_order_def)
    have "js_index hp (oldIndex + 1) = None"
      using far_before by (simp add: js_index_def)
    then have "lock_search hp (scan_order oldIndex j) = Inl TypeError"
      by (simp add: so)
    then show ?thesis using res by (simp add: G nv ni)
  qed
qed

lemma getNewHandleValues_array_sorted:
  assumes res: "getNewHandleValues engine props newValue oldIndex = Some (Inr arr)"
  shows "\<exists>vs. arr = map Some vs \<and> sorted vs \<and> NaN \<notin> set vs"
proof (cases "newValue = NaN")
  case True
  then show ?thesis using res getNewHandleValues_NaN_sorted by simp
next
  case False
  then show ?thesis using res getNewHandleValues_value_sorted by simp
qed

lemma set_concat_enumerate:
  "c \<in> set (concat (map (\<lambda>(i, x). g i x) (enumerate 0 xs)))
     \<longleftrightarrow> (\<exists>i < length xs. c \<in> set (g i (xs ! i)))"
  by (fastforce simp: in_set_enumerate_eq)

lemma arraysEqual_old_values:
  "arraysEqual newValues (map (\<lambda>handle. Some (Num (IHandleProps.value handle))) hp)
     \<longleftrightarrow> newValues = map (\<lambda>handle. Some (Num (IHandleProps.value handle))) hp"
  by (auto simp: arraysEqual_def list_all2_conv_all_nth js_strict_eq_def list_eq_iff_nth_eq)

lemma js_strict_eq_old_value:
  "index < length hp \<Longrightarrow>
   js_strict_eq (js_read (map (\<lambda>handle. Some (Num (IHandleProps.value handle))) hp) (int index)) x
     \<longleftrightarrow> x = Some (Num (IHandleProps.value (hp ! index)))"
  by (auto simp: js_strict_eq_def js_read_def js_index_def)

lemma handleChange_set:
  "set (handleChange props newValues) =
     (let hp = getSortedInteractiveHandleProps props;
          oldValues = map (\<lambda>handle. Some (Num (IHandleProps.value handle))) hp
      in if newValues = oldValues then {}
         else (if props_onChange props then {Props_onChange newValues} else {}) \<union>
              {Handle_onChange (int index) (js_read newValues (int index)) | index.
                 index < length hp \<and> onChange (hp ! index)
                 \<and> js_read newValues (int index) \<noteq> Some (Num (IHandleProps.value (hp ! index)))})"
  by (auto simp del: set_concat simp: handleChange_def Let_def arraysEqual_old_values
        safeInvoke_def set_concat_enumerate js_strict_eq_old_value split: if_splits)

lemma handleRelease_set:
  "set (handleRelease props newValues) =
     (let hp = getSortedInteractiveHandleProps props
      in (if props_onRelease props then {Props_onRelease newValues} else {}) \<union>
         {Handle_onRelease (int index) (js_read newValues (int index)) | index.
            index < length hp \<and> onRelease (hp ! index)})"
  by (auto simp del: set_concat simp: handleRelease_def Let_def safeInvoke_def
        set_concat_enumerate split: if_splits)

lemma argMin_fold:
  fixes f :: "'a \<Rightarrow> real"
  shows "fold (\<lambda>v best. if f v < f best then v else best) xs x \<in> set (x # xs)
   \<and> (\<forall>y \<in> set (x # xs). f (fold (\<lambda>v best. if f v < f best then v else best) xs x) \<le> f y)"
proof (induction xs arbitrary: x)
  case Nil
  show ?case by simp
next
  case (Cons a xs)
  show ?case using Cons.IH[of a] Cons.IH[of x] by (auto simp: not_less)
qed

lemma argMin_least:
  "values \<noteq> [] \<Longrightarrow> \<exists>h \<in> set values. argMin values f = Some h \<and> (\<forall>y \<in> set values. f h \<le> f y)"
  using argMin_fold[of f "tl values" "hd values"]
  by (cases "values") (auto simp: argMin_def)

subsection \<open>The order the engine leaves an array that holds NaN in makes no difference\<close>





subsection \<open>Overflow and clamping\<close>







lemma overflow_not_NaN: "overflow x \<noteq> NaN"
  by (simp add: overflow_def)


section \<open>Properties of the slider\<close>

subsection \<open>Sorted handle props\<close>



subsection \<open>Failure modes\<close>

text \<open>
  C2, as stated, fails: with positive step sizes the validation still throws when a child
  that is neither falsy nor a handle element is among the children, and
  \<open>React.Children.forEach\<close> throws on a child that is a plain object. The component also fails
  outside the validation: when a handle reports NaN, the lock search of the reconciliation
  reads before the first handle and throws a \<open>TypeError\<close>.
\<close>

theorem validateProps_invalid_child_counterexample:
  "validateProps (example_slider []) (Some [handle_node, Node_element])
     = Inl MULTISLIDER_INVALID_CHILD
   \<and> validateProps (example_slider []) (Some [handle_node, Node_object])
       = Inl OBJECTS_NOT_VALID_AS_REACT_CHILD
   \<and> \<not> (stepSize (example_slider []) \<le> 0 \<or> labelStepSize (example_slider []) \<le> 0)
   \<and> getNewHandleValues example_engine tied_slider NaN 0 = Some (Inl TypeError)"
proof -
  have "getNewHandleValues example_engine tied_slider NaN 0 = Some (Inl TypeError)"
    by code_simp
  then show ?thesis
    by (simp add: validateProps_def React_Children_forEach_def handle_node_def
          example_slider_def isElementOfType_def)
qed

text \<open>
  C2, amended. The validation throws exactly when the step size is not positive, or the label
  step size is not positive, or a child is a plain object, or a child that
  \<open>React.Children.forEach\<close> presents as truthy is not a handle element; the error is the one of
  the first of these checks that fails. Null, undefined, the booleans, the empty string, zero
  and NaN are the children presented as falsy. Beyond the validation, the reconciliation of
  the handle values throws a \<open>TypeError\<close> when the new value is NaN, the index is the one of a
  sorted interactive handle and every handle below it has kind \<open>PUSH\<close>.
\<close>

theorem validateProps_throws_iff:
  "((\<exists>e. validateProps props written = Inl e) \<longleftrightarrow>
      (stepSize props \<le> 0 \<or> labelStepSize props \<le> 0
       \<or> (\<exists>l. written = Some l
              \<and> (Node_object \<in> set l
                  \<or> (\<exists>c \<in> set l. presented c \<noteq> Falsy \<and> \<not> isElementOfType (presented c))))))
   \<and> (validateProps props written = Inl SLIDER_ZERO_STEP \<longleftrightarrow> stepSize props \<le> 0)
   \<and> (validateProps props written = Inl SLIDER_ZERO_LABEL_STEP \<longleftrightarrow>
        0 < stepSize props \<and> labelStepSize props \<le> 0)
   \<and> (validateProps props written = Inl OBJECTS_NOT_VALID_AS_REACT_CHILD \<longleftrightarrow>
        0 < stepSize props \<and> 0 < labelStepSize props
        \<and> (\<exists>l. written = Some l \<and> Node_object \<in> set l))
   \<and> (validateProps props written = Inl MULTISLIDER_INVALID_CHILD \<longleftrightarrow>
        0 < stepSize props \<and> 0 < labelStepSize props
        \<and> (\<exists>l. written = Some l \<and> Node_object \<notin> set l
               \<and> (\<exists>c \<in> set l. presented c \<noteq> Falsy \<and> \<not> isElementOfType (presented c))))
   \<and> (presented node = Falsy \<longleftrightarrow>
        node \<in> {Node_null, Node_undefined, Node_boolean True, Node_boolean False,
                 Node_string [], Node_number (Num 0), Node_number NaN})
   \<and> (0 \<le> oldIndex \<and> oldIndex < int (length (getSortedInteractiveHandleProps props))
       \<and> (\<forall>k \<in> {0..<nat oldIndex}.
              interactionKind (getSortedInteractiveHandleProps props ! k) = Some PUSH)
      \<longrightarrow> getNewHandleValues engine props NaN oldIndex = Some (Inl TypeError))"
proof (intro conjI impI)
  let ?hp = "getSortedInteractiveHandleProps props"
  assume a: "0 \<le> oldIndex \<and> oldIndex < int (length ?hp)
             \<and> (\<forall>k \<in> {0..<nat oldIndex}. interactionKind (?hp ! k) = Some PUSH)"
  have "\<forall>k \<in> set (rev [0..oldIndex - 1]). \<not> is_locked ?hp k"
  proof
    fix k assume "k \<in> set (rev [0..oldIndex - 1])"
    then have "nat k \<in> {0..<nat oldIndex}" by auto
    then show "\<not> is_locked ?hp k" using a by (simp add: is_locked_def)
  qed
  then have "find (is_locked ?hp) (rev [0..oldIndex - 1]) = None"
    by (simp add: find_None_iff)
  then show "getNewHandleValues engine props NaN oldIndex = Some (Inl TypeError)"
    using a getNewHandleValues_NaN_in_range[of oldIndex props engine]
    by (simp add: reconciled_NaN_def)
next
  show "presented node = Falsy \<longleftrightarrow>
        node \<in> {Node_null, Node_undefined, Node_boolean True, Node_boolean False,
                 Node_string [], Node_number (Num 0), Node_number NaN}"
    by (cases node) auto
qed (auto simp: validateProps_def React_Children_forEach_def fold_anyInvalid Let_def
       split: option.splits)

theorem validateProps_throws_iff_witness:
  "validateProps (example_slider []) (Some [handle_node, Node_boolean True, Node_null]) = Inr ()
   \<and> validateProps ((example_slider [])\<lparr>stepSize := 0\<rparr>) (Some [handle_node])
       = Inl SLIDER_ZERO_STEP
   \<and> validateProps (example_slider []) (Some [Node_string ''text'']) = Inl MULTISLIDER_INVALID_CHILD
   \<and> (0::int) \<le> 1 \<and> 1 < int (length (getSortedInteractiveHandleProps locked_neighbour_slider))
   \<and> interactionKind (getSortedInteractiveHandleProps locked_neighbour_slider ! 0) = Some PUSH
   \<and> getNewHandleValues example_engine locked_neighbour_slider NaN 1 = Some (Inl TypeError)"
proof -
  have hp: "getSortedInteractiveHandleProps locked_neighbour_slider
        = [\<lparr>value = 1, interactionKind = Some PUSH, onChange = True, onRelease = True\<rparr>,
           \<lparr>value = 5, interactionKind = Some LOCK, onChange = True, onRelease = True\<rparr>]"
    by code_simp
  show ?thesis
    using validateProps_throws_iff
            [where props = "example_slider []"
               and written = "Some [handle_node, Node_boolean True, Node_null]"]
          validateProps_throws_iff
            [where props = "(example_slider [])\<lparr>stepSize := 0\<rparr>"
               and written = "Some [handle_node]"]
          validateProps_throws_iff
            [where props = "example_slider []" and written = "Some [Node_string ''text'']"]
          validateProps_throws_iff
            [where props = locked_neighbour_slider and oldIndex = 1 and engine = example_engine]
    by (simp add: hp validateProps_def React_Children_forEach_def handle_node_def
          example_slider_def isElementOfType_def)
qed

subsection \<open>The lock search\<close>

text \<open>
  C3, as stated, fails when the search runs downwards: from index 1 towards index 0 the code
  looks at index 0 only and returns it, whereas a scan that starts at index 2 stops there.
\<close>

theorem findFirstLockedHandleIndex_downward_counterexample:
  "findFirstLockedHandleIndex three_slider 1 0 = Some (Inr 0)
   \<and> claimed_findFirstLockedHandleIndex (getSortedInteractiveHandleProps three_slider) 1 0 = 2
   \<and> findFirstLockedHandleIndex three_slider 1 0
       \<noteq> Some (Inr (claimed_findFirstLockedHandleIndex
                        (getSortedInteractiveHandleProps three_slider) 1 0))"
  by code_simp

text \<open>
  C3, amended. The search always terminates. For indices of the sorted interactive handles
  it ends without an exception; it visits the indices from the neighbour of \<open>startIndex\<close> on
  the side of \<open>endIndex\<close> (\<open>startIndex + 1\<close> when \<open>startIndex < endIndex\<close>, \<open>startIndex - 1\<close>
  otherwise) up to \<open>endIndex\<close>, which is included, and returns the first of them whose
  interaction kind is not \<open>PUSH\<close>; it returns \<open>-1\<close> exactly when every visited handle has
  kind \<open>PUSH\<close>, in particular when the two indices are equal.
\<close>

theorem findFirstLockedHandleIndex_scans:
  "(\<exists>result. findFirstLockedHandleIndex props startIndex endIndex = Some result)
   \<and> (0 \<le> startIndex \<and> startIndex < int (length (getSortedInteractiveHandleProps props))
       \<and> 0 \<le> endIndex \<and> endIndex < int (length (getSortedInteractiveHandleProps props))
      \<longrightarrow>
        findFirstLockedHandleIndex props startIndex endIndex
          = Some (Inr (case find (is_locked (getSortedInteractiveHandleProps props))
                              (scan_order startIndex endIndex) of
                         None \<Rightarrow> - 1 | Some k \<Rightarrow> k))
      \<and> set (scan_order startIndex endIndex)
          = (if startIndex < endIndex then {startIndex + 1..endIndex}
             else {endIndex..startIndex - 1})
      \<and> (findFirstLockedHandleIndex props startIndex endIndex = Some (Inr (- 1)) \<longleftrightarrow>
           (\<forall>k \<in> set (scan_order startIndex endIndex).
               interactionKind (getSortedInteractiveHandleProps props ! nat k) = Some PUSH)))"
proof (intro conjI impI; (elim conjE)?)
  show "\<exists>result. findFirstLockedHandleIndex props startIndex endIndex = Some result"
    by (simp add: findFirstLockedHandleIndex_total)
next
  let ?hp = "getSortedInteractiveHandleProps props"
  assume b: "0 \<le> startIndex" "startIndex < int (length ?hp)"
            "0 \<le> endIndex" "endIndex < int (length ?hp)"
  have r: "findFirstLockedHandleIndex props startIndex endIndex
             = Some (Inr (first_locked ?hp startIndex endIndex))"
    using b by (rule findFirstLockedHandleIndex_in_range)
  then show "findFirstLockedHandleIndex props startIndex endIndex
          = Some (Inr (case find (is_locked ?hp) (scan_order startIndex endIndex) of
                         None \<Rightarrow> - 1 | Some k \<Rightarrow> k))"
    by (simp add: first_locked_def)
  have "first_locked ?hp startIndex endIndex = - 1 \<longleftrightarrow>
          (\<forall>k \<in> set (scan_order startIndex endIndex). interactionKind (?hp ! nat k) = Some PUSH)"
  proof (cases "find (is_locked ?hp) (scan_order startIndex endIndex)")
    case None
    then have "\<forall>k \<in> set (scan_order startIndex endIndex). \<not> is_locked ?hp k"
      by (simp add: find_None_all)
    then show ?thesis
      using None by (simp add: first_locked_def is_locked_def)
  next
    case (Some l)
    have l: "l \<in> set (scan_order startIndex endIndex)" "is_locked ?hp l"
      using find_mem[OF Some] by simp_all
    then have "0 \<le> l"
      using scan_order_bounds[OF b, of l] by blast
    then show ?thesis
      using Some l by (auto simp: first_locked_def is_locked_def)
  qed
  then show "findFirstLockedHandleIndex props startIndex endIndex = Some (Inr (- 1)) \<longleftrightarrow>
          (\<forall>k \<in> set (scan_order startIndex endIndex). interactionKind (?hp ! nat k) = Some PUSH)"
    using r by simp
next
  show "set (scan_order startIndex endIndex)
          = (if startIndex < endIndex then {startIndex + 1..endIndex}
             else {endIndex..startIndex - 1})"
    by (simp add: scan_order_def)
qed

theorem findFirstLockedHandleIndex_scans_witness:
  "(0::int) \<le> 1 \<and> 1 < int (length (getSortedInteractiveHandleProps three_slider))
   \<and> (0::int) \<le> 0 \<and> 0 < int (length (getSortedInteractiveHandleProps three_slider))
   \<and> findFirstLockedHandleIndex three_slider 1 0 = Some (Inr 0)
   \<and> scan_order 1 0 = [0]"
proof -
  have hp: "getSortedInteractiveHandleProps three_slider
        = [\<lparr>value = 1, interactionKind = Some LOCK, onChange = True, onRelease = True\<rparr>,
           \<lparr>value = 5, interactionKind = Some PUSH, onChange = True, onRelease = True\<rparr>,
           \<lparr>value = 9, interactionKind = Some LOCK, onChange = True, onRelease = True\<rparr>]"
    by code_simp
  have so: "scan_order 1 0 = [0]" by (simp add: scan_order_def)
  show ?thesis
    using findFirstLockedHandleIndex_scans [of three_slider 1 0]
    by (simp add: so hp is_locked_def)
qed

subsection \<open>Reconciliation of the handle values\<close>




text \<open>
  C4. Every evaluation of the reconciliation terminates, and every array it returns is an
  array of numbers other than NaN in nondecreasing order, whichever branch produces it; so
  is every array that the change handler and the release handler of a handle pass to
  \<open>props.onChange\<close> and to \<open>props.onRelease\<close>. For the index of a sorted interactive handle
  and a new value other than NaN an array is returned, with one value for each handle.
\<close>

theorem reconciled_values_sorted:
  "(\<exists>result. getNewHandleValues engine props newValue oldIndex = Some result)
   \<and> (\<forall>arr. getNewHandleValues engine props newValue oldIndex = Some (Inr arr) \<longrightarrow>
          (\<exists>vs. arr = map Some vs \<and> sorted vs \<and> NaN \<notin> set vs))
   \<and> (\<forall>calls arr.
          getHandlerForIndex engine props oldIndex (handleChange props) newValue = Some (Inr calls)
          \<and> Props_onChange arr \<in> set calls \<longrightarrow>
          (\<exists>vs. arr = map Some vs \<and> sorted vs \<and> NaN \<notin> set vs))
   \<and> (\<forall>calls arr.
          getHandlerForIndex engine props oldIndex (handleRelease props) newValue = Some (Inr calls)
          \<and> Props_onRelease arr \<in> set calls \<longrightarrow>
          (\<exists>vs. arr = map Some vs \<and> sorted vs \<and> NaN \<notin> set vs))
   \<and> (0 \<le> oldIndex \<and> oldIndex < int (length (getSortedInteractiveHandleProps props))
       \<and> newValue \<noteq> NaN \<longrightarrow>
        (\<exists>vs. getNewHandleValues engine props newValue oldIndex = Some (Inr (map Some vs))
            \<and> length vs = length (getSortedInteractiveHandleProps props)))"
proof (intro conjI allI impI)
  show "\<exists>result. getNewHandleValues engine props newValue oldIndex = Some result"
    by (rule getNewHandleValues_total)
next
  fix arr
  assume "getNewHandleValues engine props newValue oldIndex = Some (Inr arr)"
  then show "\<exists>vs. arr = map Some vs \<and> sorted vs \<and> NaN \<notin> set vs"
    by (rule getNewHandleValues_array_sorted)
next
  fix calls arr
  assume a: "getHandlerForIndex engine props oldIndex (handleChange props) newValue
               = Some (Inr calls)
             \<and> Props_onChange arr \<in> set calls"
  then obtain given where v: "getNewHandleValues engine props newValue oldIndex = Some (Inr given)"
      and c: "calls = handleChange props given"
    by (auto simp: getHandlerForIndex_def split: option.splits sum.splits)
  have "arr = given"
    using a c by (auto simp: handleChange_set Let_def split: if_splits)
  then show "\<exists>vs. arr = map Some vs \<and> sorted vs \<and> NaN \<notin> set vs"
    using getNewHandleValues_array_sorted[OF v] by simp
next
  fix calls arr
  assume a: "getHandlerForIndex engine props oldIndex (handleRelease props) newValue
               = Some (Inr calls)
             \<and> Props_onRelease arr \<in> set calls"
  then obtain given where v: "getNewHandleValues engine props newValue oldIndex = Some (Inr given)"
      and c: "calls = handleRelease props given"
    by (auto simp: getHandlerForIndex_def split: option.splits sum.splits)
  have "arr = given"
    using a c by (auto simp: handleRelease_set Let_def split: if_splits)
  then show "\<exists>vs. arr = map Some vs \<and> sorted vs \<and> NaN \<notin> set vs"
    using getNewHandleValues_array_sorted[OF v] by simp
next
  let ?hp = "getSortedInteractiveHandleProps props"
  assume "0 \<le> oldIndex \<and> oldIndex < int (length ?hp) \<and> newValue \<noteq> NaN"
  then have "getNewHandleValues engine props newValue oldIndex
               = Some (Inr (map Some (reconciled ?hp newValue oldIndex)))"
    by (intro getNewHandleValues_in_range) simp_all
  moreover have "length (reconciled ?hp newValue oldIndex) = length ?hp"
    by (simp add: reconciled_def Let_def filled_def split: option.splits)
  ultimately show "\<exists>vs. getNewHandleValues engine props newValue oldIndex = Some (Inr (map Some vs))
                     \<and> length vs = length ?hp"
    by blast
qed

theorem reconciled_values_sorted_witness:
  "(0::int) \<le> 2 \<and> 2 < int (length (getSortedInteractiveHandleProps three_slider))
   \<and> Num 0 \<noteq> NaN
   \<and> getNewHandleValues example_engine three_slider (Num 0) 2
       = Some (Inr [Some (Num 1), Some (Num 1), Some (Num 1)])
   \<and> getHandlerForIndex example_engine three_slider 2 (handleChange three_slider) (Num 0)
       = Some (Inr [Props_onChange [Some (Num 1), Some (Num 1), Some (Num 1)],
                    Handle_onChange 1 (Some (Num 1)), Handle_onChange 2 (Some (Num 1))])
   \<and> (\<exists>vs. [Some (Num 1), Some (Num 1), Some (Num 1)] = map Some vs \<and> sorted vs
          \<and> NaN \<notin> set vs)"
proof -
  have h: "(2::int) < int (length (getSortedInteractiveHandleProps three_slider))"
    by code_simp
  have v: "getNewHandleValues example_engine three_slider (Num 0) 2
             = Some (Inr [Some (Num 1), Some (Num 1), Some (Num 1)])"
    by code_simp
  have c: "getHandlerForIndex example_engine three_slider 2 (handleChange three_slider) (Num 0)
       = Some (Inr [Props_onChange [Some (Num 1), Some (Num 1), Some (Num 1)],
                    Handle_onChange 1 (Some (Num 1)), Handle_onChange 2 (Some (Num 1))])"
    by code_simp
  show ?thesis
    using reconciled_values_sorted [of example_engine three_slider "Num 0" 2] h v c by simp
qed



subsection \<open>The change handler\<close>



subsection \<open>Nearest handle\<close>

text \<open>
  C5, as stated, fails: on a disabled slider, and for an event that comes from inside a
  handle, a click or touch on the track begins no movement, although the list of handles is
  not empty and has a nearest handle.
\<close>

theorem maybeHandleTrack_disabled_counterexample:
  "[1, 5, 9] \<noteq> ([] :: real list)
   \<and> nearestHandleForValue example_clientToValue example_props_value [1, 5, 9] example_offset
       = Some 5
   \<and> maybeHandleTrackClick disabled_slider False example_clientToValue example_props_value
       [1, 5, 9] example_offset = None
   \<and> maybeHandleTrackTouch disabled_slider False example_clientToValue example_props_value
       [1, 5, 9] example_offset = None
   \<and> maybeHandleTrackClick (example_slider []) True example_clientToValue example_props_value
       [1, 5, 9] example_offset = None"
  by (simp add: maybeHandleTrackClick_def maybeHandleTrackTouch_def canHandleTrackEvent_def
        nearestHandleForValue_def argMin_def disabled_slider_def example_slider_def
        example_clientToValue_def example_props_value_def example_offset_def)

text \<open>
  C5, amended. For a non-empty list of handles the nearest handle is one of them, and the
  distance between the value of the event position and its own value is least among all
  handles; a track click or touch that the slider can handle (the slider is enabled and the
  event does not come from inside a handle) begins the movement of that handle, and of no
  other; a click or touch that it cannot handle begins no movement. For an empty list there
  is no nearest handle and no movement begins.
\<close>

theorem nearest_handle_selection:
  "(handles \<noteq> [] \<longrightarrow>
      (\<exists>h \<in> set handles.
          nearestHandleForValue clientToValue props_value handles getOffset = Some h
        \<and> (\<forall>h' \<in> set handles.
              \<bar>clientToValue h (getOffset h) - props_value h\<bar>
                \<le> \<bar>clientToValue h' (getOffset h') - props_value h'\<bar>)))
   \<and> nearestHandleForValue clientToValue props_value [] getOffset = None
   \<and> (canHandleTrackEvent props insideHandle \<longrightarrow>
        maybeHandleTrackClick props insideHandle clientToValue props_value handles getOffset
          = nearestHandleForValue clientToValue props_value handles getOffset
      \<and> maybeHandleTrackTouch props insideHandle clientToValue props_value handles getOffset
          = nearestHandleForValue clientToValue props_value handles getOffset)
   \<and> (\<not> canHandleTrackEvent props insideHandle \<longrightarrow>
        maybeHandleTrackClick props insideHandle clientToValue props_value handles getOffset = None
      \<and> maybeHandleTrackTouch props insideHandle clientToValue props_value handles getOffset = None)
   \<and> maybeHandleTrackClick props insideHandle clientToValue props_value [] getOffset = None
   \<and> maybeHandleTrackTouch props insideHandle clientToValue props_value [] getOffset = None"
proof -
  have a: "handles \<noteq> [] \<longrightarrow>
      (\<exists>h \<in> set handles.
          nearestHandleForValue clientToValue props_value handles getOffset = Some h
        \<and> (\<forall>h' \<in> set handles.
              \<bar>clientToValue h (getOffset h) - props_value h\<bar>
                \<le> \<bar>clientToValue h' (getOffset h') - props_value h'\<bar>))"
    using argMin_least[of handles "\<lambda>handle. \<bar>clientToValue handle (getOffset handle) - props_value handle\<bar>"]
    by (simp add: nearestHandleForValue_def Let_def)
  have b: "nearestHandleForValue clientToValue props_value [] getOffset = None"
    by (simp add: nearestHandleForValue_def argMin_def)
  show ?thesis
    using a b by (simp add: maybeHandleTrackClick_def maybeHandleTrackTouch_def split: option.splits)
qed

theorem nearest_handle_selection_witness:
  "[1, 5, 9] \<noteq> ([] :: real list)
   \<and> canHandleTrackEvent (example_slider []) False
   \<and> nearestHandleForValue example_clientToValue example_props_value [1, 5, 9] example_offset
       = Some 5
   \<and> maybeHandleTrackClick (example_slider []) False example_clientToValue example_props_value
       [1, 5, 9] example_offset = Some 5"
proof -
  have c: "canHandleTrackEvent (example_slider []) False"
    by (simp add: canHandleTrackEvent_def example_slider_def)
  from nearest_handle_selection
         [where handles = "[1, 5, 9]" and clientToValue = example_clientToValue
            and props_value = example_props_value and getOffset = example_offset
            and props = "example_slider []" and insideHandle = False]
  show ?thesis
    using c
    by (auto simp: example_clientToValue_def example_props_value_def example_offset_def)
qed

subsection \<open>Tick size and offset ratio\<close>




subsection \<open>The windowOverride context validator\<close>

text \<open>
  C9. Both validators of the \<open>windowOverride\<close> context return undefined for a null or
  undefined value, return an error exactly when the value is neither and one of its members
  \<open>document\<close>, \<open>location\<close>, \<open>alert\<close>, \<open>setInterval\<close> is null or undefined, and accept a value
  that provides the four members.
\<close>

theorem window_override_validator:
  "(windowOverrideContextTypes Null = None \<and> windowOverrideContextTypes Undefined = None
    \<and> WINDOW_OVERRIDE_REACT_CONTEXT_TYPES Null = None
    \<and> WINDOW_OVERRIDE_REACT_CONTEXT_TYPES Undefined = None)
   \<and> ((\<exists>e. windowOverrideContextTypes v = Some e) \<longleftrightarrow>
        (\<exists>w. v = Value w \<and> (document w \<in> {Null, Undefined} \<or> location w \<in> {Null, Undefined}
                              \<or> alert w \<in> {Null, Undefined} \<or> setInterval w \<in> {Null, Undefined})))
   \<and> ((\<exists>e. WINDOW_OVERRIDE_REACT_CONTEXT_TYPES v = Some e) \<longleftrightarrow>
        (\<exists>w. v = Value w \<and> (document w \<in> {Null, Undefined} \<or> location w \<in> {Null, Undefined}
                              \<or> alert w \<in> {Null, Undefined} \<or> setInterval w \<in> {Null, Undefined})))
   \<and> windowOverrideContextTypes
         (Value \<lparr>document = Value d, location = Value l, alert = Value a, setInterval = Value s\<rparr>) = None
   \<and> WINDOW_OVERRIDE_REACT_CONTEXT_TYPES
         (Value \<lparr>document = Value d, location = Value l, alert = Value a, setInterval = Value s\<rparr>) = None"
  by (cases v)
     (auto simp: windowOverrideContextTypes_def WINDOW_OVERRIDE_REACT_CONTEXT_TYPES_def
        is_nullish_def split: nullable.splits)

theorem window_override_validator_witness:
  "windowOverrideContextTypes (Value complete_window) = None
   \<and> windowOverrideContextTypes (Value (complete_window\<lparr>alert := Undefined\<rparr>))
       = Some WINDOW_OVERRIDE_CONTEXT_UNEXPECTED_TYPE
   \<and> WINDOW_OVERRIDE_REACT_CONTEXT_TYPES (Value (complete_window\<lparr>location := Null\<rparr>))
       = Some WINDOW_OVERRIDE_CONTEXT_CLASS_NAME_STRING"
  using window_override_validator [of "Value complete_window"]
        window_override_validator [of "Value (complete_window\<lparr>alert := Undefined\<rparr>)"]
        window_override_validator [of "Value (complete_window\<lparr>location := Null\<rparr>)"]
  by (simp add: complete_window_def windowOverrideContextTypes_def
        WINDOW_OVERRIDE_REACT_CONTEXT_TYPES_def is_nullish_def)

end
